theory Spec2Isabelle
  imports Complex_Main "HOL-Library.Word" "HOL-Library.Signed_Division"
begin

unbundle bit_operations_syntax

section \<open>Go values: bytes, slices, panics and returned errors\<close>

text \<open>
  A Go \<open>byte\<close> is an 8-bit word. A Go \<open>int\<close> that only holds lengths, offsets and
  loop counters is an unbounded \<open>int\<close> here: every such value of the code below is
  bounded by a small multiple of a slice length. The one place where the machine width
  shows, \<open>1 << width\<close>, is a 64-bit word.

  A function of the code either returns, returns with an \<open>error\<close> value, or panics.
  The three outcomes are kept apart: \<open>Inr v\<close> is a normal return, \<open>Inl (Error e)\<close> is
  a returned error and \<open>Inl (Panic p)\<close> is a run-time panic.
\<close>

type_synonym byte = "8 word"

datatype panic =
    IndexOutOfRange
  | SliceBoundsOutOfRange
  | NegativeShiftAmount
  | MakeLenOutOfRange
  | InvalidWidth
  | LinCombLengthMismatch
  | IntegerDivideByZero
  | FFTError

datatype error =
    ErrInvalidNodeEncoding
  | errSerializedPayloadTooShort
  | ErrTooShortForStem
  | ErrTooShortForBitlist
  | ErrTooShortForCommitments
  | ErrNotEnoughData int
  | ErrSettingCommitment
  | ErrSettingC1Commitment
  | ErrSettingC2Commitment
  | ErrSettingLeafC1Commitment
  | ErrSettingLeafC2Commitment
  | ErrSettingLeafRootCommitment

datatype fault = Panic panic | Error error

type_synonym 'a result = "fault + 'a"

text \<open>
  \<open>s[i]\<close>: an index expression panics unless \<open>0 \<le> i < len(s)\<close>.
\<close>

definition elem :: "'a list \<Rightarrow> int \<Rightarrow> 'a result" where
  "elem s i =
     (if 0 \<le> i \<and> i < int (length s) then Inr (s ! nat i)
      else Inl (Panic IndexOutOfRange))"

text \<open>
  \<open>s[lo:hi]\<close>: a slice expression panics unless \<open>0 \<le> lo \<le> hi \<le> cap(s)\<close>. The
  byte slices of this development have their capacity equal to their length, as a
  slice literal, the result of \<open>make([]byte, n)\<close> or a buffer read in full has.
  \<open>s[lo:]\<close> is \<open>s[lo:len(s)]\<close>.
\<close>

definition slice :: "'a list \<Rightarrow> int \<Rightarrow> int \<Rightarrow> 'a list result" where
  "slice s lo hi =
     (if 0 \<le> lo \<and> lo \<le> hi \<and> hi \<le> int (length s)
      then Inr (take (nat (hi - lo)) (drop (nat lo) s))
      else Inl (Panic SliceBoundsOutOfRange))"

definition slice_from :: "'a list \<Rightarrow> int \<Rightarrow> 'a list result" where
  "slice_from s lo = slice s lo (int (length s))"

text \<open>Sequencing: the first panic or error ends the computation.\<close>

definition bind :: "'a result \<Rightarrow> ('a \<Rightarrow> 'b result) \<Rightarrow> 'b result" where
  "bind m f = (case m of Inl e \<Rightarrow> Inl e | Inr v \<Rightarrow> f v)"

text \<open>
  \<open>s[i] = v\<close>, and \<open>&s[i]\<close> passed as the destination of a library call: the
  same bounds check as a read.
\<close>

definition assign :: "'a list \<Rightarrow> int \<Rightarrow> 'a \<Rightarrow> 'a list result" where
  "assign s i v =
     (if 0 \<le> i \<and> i < int (length s) then Inr (s[nat i := v])
      else Inl (Panic IndexOutOfRange))"

text \<open>
  \<open>make([]T, n)\<close> panics on a negative length and fills the slice with the zero value
  of \<open>T\<close> otherwise.
\<close>

definition make_slice :: "'a \<Rightarrow> int \<Rightarrow> 'a list result" where
  "make_slice zero n =
     (if n < 0 then Inl (Panic MakeLenOutOfRange) else Inr (replicate (nat n) zero))"

text \<open>
  \<open>a % b\<close> on \<open>int\<close>: a run-time panic when \<open>b\<close> is zero, the remainder of the
  division truncated towards zero otherwise.
\<close>

definition rem :: "int \<Rightarrow> int \<Rightarrow> int result" where
  "rem a b = (if b = 0 then Inl (Panic IntegerDivideByZero) else Inr (a smod b))"

text \<open>
  \<open>1 << width\<close> at type \<open>int\<close> (64 bits): a negative shift count panics, and the
  bits shifted beyond bit 63 are lost.
\<close>

definition shl1 :: "int \<Rightarrow> int result" where
  "shl1 n =
     (if n < 0 then Inl (Panic NegativeShiftAmount)
      else Inr (sint (push_bit (nat n) (1 :: 64 word))))"

text \<open>
  \<open>for i := lo; i < n; i++ { body }\<close> over a state \<open>s\<close>; a panic or an error in the
  body ends the loop.
\<close>

function for_range :: "int \<Rightarrow> int \<Rightarrow> (int \<Rightarrow> 's \<Rightarrow> 's result) \<Rightarrow> 's \<Rightarrow> 's result" where
  "for_range i n body s =
     (if i < n then
        (case body i s of Inl e \<Rightarrow> Inl e | Inr s' \<Rightarrow> for_range (i + 1) n body s')
      else Inr s)"
  by pat_completeness auto
termination
  by (relation "measure (\<lambda>(i, n, body, s). nat (n - i))") auto

declare for_range.simps [simp del]

section \<open>The tree configuration\<close>

text \<open>
  \<open>TreeConfig\<close> of the source. The scalar field \<open>bls.Fr\<close> is the type \<open>'a\<close> and the
  group \<open>bls.G1Point\<close> is the type \<open>'g\<close>; both belong to the algebra library the
  code is linked against.
\<close>

record ('a, 'g) TreeConfig =
  width :: int
  nodeWidth :: int
  modulus :: int
  omegaIs :: "'a list"
  inverses :: "'a list"
  nodeWidthInversed :: 'a
  lg1 :: "'g list"
  multiExpThreshold :: int

text \<open>
  The algebra library (\<open>bls\<close>) is not part of the repository. Its field operations
  \<open>AddModFr\<close>, \<open>SubModFr\<close> and \<open>MulModFr\<close> are \<open>+\<close>, \<open>-\<close> and \<open>*\<close> of the
  field \<open>'a\<close>, \<open>bls.ZERO\<close> and \<open>bls.ONE\<close> are \<open>0\<close> and \<open>1\<close>, \<open>bls.EqualZero\<close> is
  the test \<open>x = 0\<close>, and the group operation \<open>AddG1\<close> with its identity \<open>ZERO_G1\<close>
  are \<open>+\<close> and \<open>0\<close> of \<open>'g\<close>. What the library does when asked to divide by zero is
  not known here, so it is left open: \<open>divZero a\<close> is whatever \<open>DivModFr\<close> returns for
  \<open>a / 0\<close>, and \<open>invZero\<close> whatever \<open>InvModFr\<close> returns for \<open>1 / 0\<close>. The table
  \<open>Scale2RootOfUnity\<close> and the scalar multiplication \<open>MulG1\<close> are the library's.
\<close>

record ('a, 'g) bls =
  Scale2RootOfUnity :: "'a list"
  divZero :: "'a \<Rightarrow> 'a"
  invZero :: 'a
  MulG1 :: "'g \<Rightarrow> 'a \<Rightarrow> 'g"

definition DivModFr :: "('a::field, 'g) bls \<Rightarrow> 'a \<Rightarrow> 'a \<Rightarrow> 'a" where
  "DivModFr L a b = (if b = 0 then divZero L a else a / b)"

definition InvModFr :: "('a::field, 'g) bls \<Rightarrow> 'a \<Rightarrow> 'a" where
  "InvModFr L a = (if a = 0 then invZero L else inverse a)"

text \<open>
  \<open>bls.LinCombG1(numbers, factors)\<close>, the library's multi-scalar multiplication: the
  sum of the points \<open>numbers[i]\<close> weighted by the scalars \<open>factors[i]\<close>. The library
  panics when the two slices differ in length.
\<close>

definition LinCombG1 ::
  "('a, 'g::comm_monoid_add) bls \<Rightarrow> 'g list \<Rightarrow> 'a list \<Rightarrow> 'g result" where
  "LinCombG1 L numbers factors =
     (if length numbers \<noteq> length factors then Inl (Panic LinCombLengthMismatch)
      else Inr (sum_list (map (\<lambda>(p, c). MulG1 L p c) (zip numbers factors))))"

definition multiExpThreshold8 :: int where
  "multiExpThreshold8 = 25"

text \<open>
  \<open>initTreeConfig(width, lg1)\<close>. The constant \<open>multiExpThreshold10\<close> is declared
  outside the source file and is an argument here. The first loop fills \<open>omegaIs\<close>
  with the successive powers of \<open>Scale2RootOfUnity[width]\<close>, read from the table at
  every round; the second loop fills \<open>inverses\<close> from index 1 on.
\<close>

definition omegaIs_body ::
  "('a::field, 'g) bls \<Rightarrow> int \<Rightarrow> int \<Rightarrow> 'a list \<times> 'a \<Rightarrow> ('a list \<times> 'a) result" where
  "omegaIs_body L w i st =
     (case st of (os, tmp) \<Rightarrow>
        bind (assign os i tmp) (\<lambda>os'.
        bind (elem (Scale2RootOfUnity L) w) (\<lambda>r.
        Inr (os', tmp * r))))"

definition inverses_body ::
  "('a::field, 'g) bls \<Rightarrow> 'a list \<Rightarrow> int \<Rightarrow> 'a list \<Rightarrow> 'a list result" where
  "inverses_body L os i invs =
     bind (elem os i) (\<lambda>w.
     bind (assign invs i (DivModFr L 1 (1 - w))) Inr)"

definition initTreeConfig ::
  "('a::field, 'g) bls \<Rightarrow> int \<Rightarrow> int \<Rightarrow> 'g list \<Rightarrow> ('a, 'g) TreeConfig result" where
  "initTreeConfig L multiExpThreshold10 w points =
     bind (shl1 w) (\<lambda>nw.
     let thr = (if w = 10 then multiExpThreshold10 else multiExpThreshold8) in
     bind (make_slice 0 nw) (\<lambda>os0.
     bind (make_slice 0 nw) (\<lambda>invs0.
     bind (for_range 0 nw (omegaIs_body L w) (os0, 1)) (\<lambda>(os, tmp).
     bind (assign invs0 0 0) (\<lambda>invs1.
     bind (for_range 1 nw (inverses_body L os) invs1) (\<lambda>invs.
     Inr \<lparr>width = w, nodeWidth = nw,
          modulus = 52435875175126190479447740508185965837690552500527637822603658699938581184513,
          omegaIs = os, inverses = invs,
          nodeWidthInversed = InvModFr L (of_int nw),
          lg1 = points, multiExpThreshold = thr\<rparr>))))))"

text \<open>
  \<open>GetTreeConfig(width)\<close> and the cache \<open>configs\<close> it keeps, a map from widths to
  configurations that \<open>init\<close> makes empty. The function takes the cache and returns it
  with the configuration; the mutex makes each call run on its own, and a call that
  panics leaves the cache as it was. On a miss the structured reference string is
  built from the powers of the fixed scalar, transformed by the FFT of the library
  \<open>kzg\<close> and handed to \<open>initTreeConfig\<close>. The generators, \<open>MulG2\<close> and the FFT are the
  library's: \<open>FFTG1 scale vals\<close> is \<open>NewFFTSettings(scale).FFTG1(vals, true)\<close>, and
  \<open>None\<close> is an error, on which \<open>GetTreeConfig\<close> panics. \<open>uint8(width)\<close> keeps the low
  8 bits of the width. The zero value of a point, which \<open>make\<close> fills the two slices
  with before the loop overwrites every entry, is written \<open>0\<close>.
\<close>

record ('a, 'g, 'h) kzg =
  GenG1 :: 'g
  GenG2 :: 'h
  MulG2 :: "'h \<Rightarrow> 'a \<Rightarrow> 'h"
  FFTG1 :: "byte \<Rightarrow> 'g list \<Rightarrow> 'g list option"

definition GetTreeConfig_body ::
  "('a::field, 'g) bls \<Rightarrow> ('a, 'g, 'h) kzg \<Rightarrow> 'a \<Rightarrow> int \<Rightarrow> 'g list \<times> 'h list \<times> 'a
   \<Rightarrow> ('g list \<times> 'h list \<times> 'a) result" where
  "GetTreeConfig_body L K s i st =
     (case st of (s1Out, s2Out, sPow) \<Rightarrow>
        bind (assign s1Out i (MulG1 L (GenG1 K) sPow)) (\<lambda>s1Out'.
        bind (assign s2Out i (MulG2 K (GenG2 K) sPow)) (\<lambda>s2Out'.
        Inr (s1Out', s2Out', sPow * s))))"

definition GetTreeConfig ::
  "('a::field, 'g::zero) bls \<Rightarrow> ('a, 'g, 'h::zero) kzg \<Rightarrow> int
   \<Rightarrow> (int \<rightharpoonup> ('a, 'g) TreeConfig) \<Rightarrow> int
   \<Rightarrow> (('a, 'g) TreeConfig \<times> (int \<rightharpoonup> ('a, 'g) TreeConfig)) result" where
  "GetTreeConfig L K multiExpThreshold10 configs w =
     (case configs w of
        Some cfg \<Rightarrow> Inr (cfg, configs)
      | None \<Rightarrow>
          bind (shl1 w) (\<lambda>nChildren.
          bind (make_slice 0 nChildren) (\<lambda>s1Out.
          bind (make_slice 0 nChildren) (\<lambda>s2Out.
          bind (for_range 0 nChildren
                  (GetTreeConfig_body L K 1927409816240961209460912649124)
                  (s1Out, s2Out, 1)) (\<lambda>(s1Out', s2Out', sPow).
          case FFTG1 K (word_of_int w) s1Out' of
            None \<Rightarrow> Inl (Panic FFTError)
          | Some points \<Rightarrow>
              bind (initTreeConfig L multiExpThreshold10 w points) (\<lambda>tc.
              Inr (tc, configs(w \<mapsto> tc))))))))"

text \<open>
  The states of the cache: empty after \<open>init\<close>, and afterwards whatever a call of
  \<open>GetTreeConfig\<close> that returns leaves behind.
\<close>

inductive cache_state ::
  "('a::field, 'g::zero) bls \<Rightarrow> ('a, 'g, 'h::zero) kzg \<Rightarrow> int
   \<Rightarrow> (int \<rightharpoonup> ('a, 'g) TreeConfig) \<Rightarrow> bool"
  for L :: "('a::field, 'g::zero) bls" and K :: "('a, 'g, 'h::zero) kzg" and thr10 :: int where
  init: "cache_state L K thr10 Map.empty"
| call: "cache_state L K thr10 configs \<Longrightarrow>
         GetTreeConfig L K thr10 configs w = Inr (tc, configs') \<Longrightarrow>
         cache_state L K thr10 configs'"

section \<open>Polynomial and commitment algebra\<close>

text \<open>
  \<open>innerQuotients(f, index)\<close>. The three index computations come first in the loop
  body, then the library calls, each of which reads its operands through index
  expressions. \<open>q[index]\<close> is read and written at every round with \<open>i \<noteq> index\<close>.
\<close>

definition innerQuotients_body ::
  "('a::field, 'g) TreeConfig \<Rightarrow> 'a list \<Rightarrow> int \<Rightarrow> 'a \<Rightarrow> int \<Rightarrow> 'a list \<Rightarrow> 'a list result" where
  "innerQuotients_body tc f index y i q =
     (if i \<noteq> index then
        bind (rem (int (length (omegaIs tc)) - i) (int (length (omegaIs tc)))) (\<lambda>omegaIdx.
        bind (rem (index + nodeWidth tc - i) (nodeWidth tc)) (\<lambda>invIdx.
        bind (rem (i - index + nodeWidth tc) (nodeWidth tc)) (\<lambda>iMinIdx.
        bind (elem f i) (\<lambda>fi.
        bind (elem (omegaIs tc) omegaIdx) (\<lambda>om.
        bind (elem (inverses tc) invIdx) (\<lambda>iv.
        bind (assign q i ((fi - y) * om * iv)) (\<lambda>q1.
        bind (elem (omegaIs tc) iMinIdx) (\<lambda>om2.
        bind (elem q1 i) (\<lambda>qi.
        bind (elem q1 index) (\<lambda>qx.
        assign q1 index (qx + (0 - om2 * qi))))))))))))
      else Inr q)"

definition innerQuotients ::
  "('a::field, 'g) TreeConfig \<Rightarrow> 'a list \<Rightarrow> int \<Rightarrow> 'a list result" where
  "innerQuotients tc f index =
     bind (make_slice 0 (nodeWidth tc)) (\<lambda>q.
     bind (elem f index) (\<lambda>y.
     for_range 0 (nodeWidth tc) (innerQuotients_body tc f index y) q))"

text \<open>
  \<open>outerQuotients(f, z, y)\<close>; \<open>z\<close> and \<open>y\<close> are the field elements the two pointers
  refer to.
\<close>

definition outerQuotients_body ::
  "('a::field, 'g) bls \<Rightarrow> ('a, 'g) TreeConfig \<Rightarrow> 'a list \<Rightarrow> 'a \<Rightarrow> 'a \<Rightarrow> int \<Rightarrow> 'a list
   \<Rightarrow> 'a list result" where
  "outerQuotients_body L tc f z y i q =
     bind (elem f i) (\<lambda>fi.
     bind (elem (omegaIs tc) i) (\<lambda>om.
     assign q i (DivModFr L (fi - y) (om - z))))"

definition outerQuotients ::
  "('a::field, 'g) bls \<Rightarrow> ('a, 'g) TreeConfig \<Rightarrow> 'a list \<Rightarrow> 'a \<Rightarrow> 'a \<Rightarrow> 'a list result" where
  "outerQuotients L tc f z y =
     bind (make_slice 0 (nodeWidth tc)) (\<lambda>q.
     for_range 0 (nodeWidth tc) (outerQuotients_body L tc f z y) q)"

text \<open>
  \<open>evalPoly(poly, emptyChildren)\<close>: the multi-scalar multiplication when the number of
  non-empty children reaches the threshold, and the loop over the non-zero entries of
  \<open>poly\<close> otherwise. The two branches are also defined on their own. The difference
  \<open>nodeWidth - emptyChildren\<close> is taken without wrap-around, as it is in the code for
  every \<open>emptyChildren\<close> that is a count of children.
\<close>

definition evalPoly_body ::
  "('a::field, 'g::comm_monoid_add) bls \<Rightarrow> ('a, 'g) TreeConfig \<Rightarrow> 'a list \<Rightarrow> int \<Rightarrow> 'g
   \<Rightarrow> 'g result" where
  "evalPoly_body L tc poly i comm =
     bind (elem poly i) (\<lambda>c.
     if c \<noteq> 0 then
       bind (elem (lg1 tc) i) (\<lambda>p. Inr (comm + MulG1 L p c))
     else Inr comm)"

definition evalPoly_naive ::
  "('a::field, 'g::comm_monoid_add) bls \<Rightarrow> ('a, 'g) TreeConfig \<Rightarrow> 'a list \<Rightarrow> 'g result" where
  "evalPoly_naive L tc poly = for_range 0 (int (length poly)) (evalPoly_body L tc poly) 0"

definition evalPoly_multiExp ::
  "('a::field, 'g::comm_monoid_add) bls \<Rightarrow> ('a, 'g) TreeConfig \<Rightarrow> 'a list \<Rightarrow> 'g result" where
  "evalPoly_multiExp L tc poly = LinCombG1 L (lg1 tc) poly"

definition evalPoly ::
  "('a::field, 'g::comm_monoid_add) bls \<Rightarrow> ('a, 'g) TreeConfig \<Rightarrow> 'a list \<Rightarrow> int \<Rightarrow> 'g result" where
  "evalPoly L tc poly emptyChildren =
     (if nodeWidth tc - emptyChildren \<ge> multiExpThreshold tc
      then evalPoly_multiExp L tc poly
      else evalPoly_naive L tc poly)"

section \<open>Key paths\<close>

text \<open>
  \<open>equalPaths\<close>: the length test comes first, then the dispatch on the width.
  Go evaluates \<open>key1[:31]\<close> and \<open>key2[:31]\<close> before \<open>bytes.Equal\<close> is called, and
  \<open>&&\<close> evaluates its right operand (with \<open>key1[31]\<close> and \<open>key2[31]\<close>) only when
  the left one is true.
\<close>

definition equalPaths :: "('a, 'g) TreeConfig \<Rightarrow> byte list \<Rightarrow> byte list \<Rightarrow> bool result" where
  "equalPaths tc key1 key2 =
     (if length key1 \<noteq> length key2 then Inr False
      else if width tc = 8 then
        bind (slice key1 0 31) (\<lambda>p1.
        bind (slice key2 0 31) (\<lambda>p2.
        Inr (p1 = p2)))
      else if width tc = 10 then
        bind (slice key1 0 31) (\<lambda>p1.
        bind (slice key2 0 31) (\<lambda>p2.
        if p1 = p2 then
          bind (elem key1 31) (\<lambda>b1.
          bind (elem key2 31) (\<lambda>b2.
          Inr (b1 AND 0xa0 = b2 AND 0xa0)))
        else Inr False))
      else Inl (Panic InvalidWidth))"

text \<open>
  The reading of the specification for width 10: the first 31 bytes agree and so do the
  top \<open>k\<close> bits of the final byte. A level spans 10 bits, so the level that starts in
  byte 30 takes the top 2 bits of byte 31.
\<close>

definition topBits :: "nat \<Rightarrow> byte \<Rightarrow> byte" where
  "topBits k b = drop_bit (8 - k) b"

definition equalPaths10_spec :: "nat \<Rightarrow> byte list \<Rightarrow> byte list \<Rightarrow> bool" where
  "equalPaths10_spec k key1 key2 =
     (take 31 key1 = take 31 key2 \<and> topBits k (key1 ! 31) = topBits k (key2 ! 31))"

section \<open>The node codec\<close>

text \<open>
  The codec refers to declarations that live outside the source file: the constants
  \<open>NodeWidth\<close>, \<open>StemSize\<close>, \<open>LeafValueSize\<close> and \<open>banderwagon.UncompressedSize\<close>,
  the four tag bytes, \<open>EmptyCodeHash\<close>, the group identity \<open>banderwagon.Identity\<close> and
  the point decoder \<open>SetBytesUncompressed\<close> (called with the flag \<open>true\<close> throughout),
  which either fails with an error (\<open>None\<close>) or yields a point. They are the fields of
  an environment \<open>E\<close>, so that every definition and theorem below holds for whatever
  values they have. The points are of type \<open>'p\<close>.
\<close>

record 'p codec =
  NodeWidth :: nat
  StemSize :: nat
  LeafValueSize :: nat
  UncompressedSize :: nat
  leafType :: byte
  internalType :: byte
  eoAccountType :: byte
  singleSlotType :: byte
  EmptyCodeHash :: "byte list"
  Identity :: 'p
  SetBytesUncompressed :: "byte list \<Rightarrow> 'p option"

text \<open>
  The nodes \<open>ParseNode\<close> builds. A leaf is the struct \<open>LeafNode\<close>: its three
  commitments are pointers, \<open>None\<close> while they are nil, and a value that is absent (a nil
  byte slice) is \<open>None\<close>. \<open>NilNode\<close> is the nil interface value, which is what an
  element of \<open>make([]VerkleNode, NodeWidth)\<close> holds until it is assigned.
\<close>

record 'p LeafNode =
  stem :: "byte list"
  values' :: "byte list option list"
  commitment :: "'p option"
  c1 :: "'p option"
  c2 :: "'p option"
  depth :: byte

datatype 'p VerkleNode =
    InternalNode "'p VerkleNode list" 'p byte
  | Leaf "'p LeafNode"
  | HashedNode
  | Empty
  | NilNode

definition nodeTypeSize :: int where
  "nodeTypeSize = 1"

definition bitlistSize :: "'p codec \<Rightarrow> int" where
  "bitlistSize E = int (NodeWidth E div 8)"

definition nodeTypeOffset :: int where
  "nodeTypeOffset = 0"

definition internalBitlistOffset :: int where
  "internalBitlistOffset = nodeTypeOffset + nodeTypeSize"

definition internalCommitmentOffset :: "'p codec \<Rightarrow> int" where
  "internalCommitmentOffset E = internalBitlistOffset + bitlistSize E"

definition leafStemOffset :: int where
  "leafStemOffset = nodeTypeOffset + nodeTypeSize"

definition leafBitlistOffset :: "'p codec \<Rightarrow> int" where
  "leafBitlistOffset E = leafStemOffset + int (StemSize E)"

definition leafCommitmentOffset :: "'p codec \<Rightarrow> int" where
  "leafCommitmentOffset E = leafBitlistOffset E + bitlistSize E"

definition leafC1CommitmentOffset :: "'p codec \<Rightarrow> int" where
  "leafC1CommitmentOffset E = leafCommitmentOffset E + int (UncompressedSize E)"

definition leafC2CommitmentOffset :: "'p codec \<Rightarrow> int" where
  "leafC2CommitmentOffset E = leafC1CommitmentOffset E + int (UncompressedSize E)"

definition leafChildrenOffset :: "'p codec \<Rightarrow> int" where
  "leafChildrenOffset E = leafC2CommitmentOffset E + int (UncompressedSize E)"

definition leafBasicDataSize :: int where
  "leafBasicDataSize = 32"

definition leafSlotSize :: int where
  "leafSlotSize = 32"

definition leafValueIndexSize :: int where
  "leafValueIndexSize = 1"

definition singleSlotLeafSize :: "'p codec \<Rightarrow> int" where
  "singleSlotLeafSize E =
     nodeTypeSize + int (StemSize E) + 2 * int (UncompressedSize E)
       + leafValueIndexSize + leafSlotSize"

definition eoaLeafSize :: "'p codec \<Rightarrow> int" where
  "eoaLeafSize E =
     nodeTypeSize + int (StemSize E) + 2 * int (UncompressedSize E) + leafBasicDataSize"

subsection \<open>Bit lists\<close>

definition mask' :: "byte list" where
  "mask' = [0x80, 0x40, 0x20, 0x10, 0x8, 0x4, 0x2, 0x1]"

text \<open>
  \<open>bit(bitlist, nr)\<close>. Go's \<open>/\<close> and \<open>%\<close> on \<open>int\<close> truncate towards zero
  (\<open>sdiv\<close> and \<open>smod\<close>); the operands of \<open>&\<close> are evaluated left to right.
\<close>

definition bit' :: "byte list \<Rightarrow> int \<Rightarrow> bool result" where
  "bit' bitlist nr =
     (if int (length bitlist) * 8 \<le> nr then Inr False
      else
        bind (elem bitlist (nr sdiv 8)) (\<lambda>b.
        bind (elem mask' (nr smod 8)) (\<lambda>m.
        Inr (b AND m \<noteq> 0))))"

text \<open>
  Modelled from the spec: \<open>NewLeafNodeWithNoComms\<close> and \<open>setDepth\<close> are called by the
  leaf decoders and are not in the source file. A leaf node has a stem, a vector of
  values, the commitment triple and a depth; the constructor stores the stem and the
  values it is given and leaves the commitments unset, and \<open>setDepth\<close> stores the depth.
\<close>

definition NewLeafNodeWithNoComms :: "byte list \<Rightarrow> byte list option list \<Rightarrow> 'p LeafNode" where
  "NewLeafNodeWithNoComms st vs =
     \<lparr>stem = st, values' = vs, commitment = None, c1 = None, c2 = None, depth = 0\<rparr>"

definition setDepth :: "'p LeafNode \<Rightarrow> byte \<Rightarrow> 'p LeafNode" where
  "setDepth leaf d = leaf\<lparr>depth := d\<rparr>"

text \<open>
  \<open>p = new(Point)\<close> followed by \<open>p.SetBytesUncompressed(raw, true)\<close>, with the error the
  caller returns when the decoder fails.
\<close>

definition setPoint :: "'p codec \<Rightarrow> byte list \<Rightarrow> error \<Rightarrow> 'p result" where
  "setPoint E raw e =
     (case SetBytesUncompressed E raw of None \<Rightarrow> Inl (Error e) | Some pt \<Rightarrow> Inr pt)"

text \<open>
  \<open>parseLeafNode\<close>: three length tests, each before the slice expressions it guards,
  then the loop over the bit list, which tests the length before it takes each value.
  The loop carries \<open>ln.values\<close> and \<open>offset\<close>.
\<close>

definition parseLeafNode_body ::
  "'p codec \<Rightarrow> byte list \<Rightarrow> byte list \<Rightarrow> int \<Rightarrow> byte list option list \<times> int
   \<Rightarrow> (byte list option list \<times> int) result" where
  "parseLeafNode_body E serialized bitlist i st =
     (case st of (vs, offset) \<Rightarrow>
        bind (bit' bitlist i) (\<lambda>b.
        if b then
          (if offset + int (LeafValueSize E) > int (length serialized)
           then Inl (Error (ErrNotEnoughData i))
           else
             bind (slice serialized offset (offset + int (LeafValueSize E))) (\<lambda>v.
             bind (assign vs i (Some v)) (\<lambda>vs'.
             Inr (vs', offset + int (LeafValueSize E)))))
        else Inr (vs, offset)))"

definition parseLeafNode :: "'p codec \<Rightarrow> byte list \<Rightarrow> byte \<Rightarrow> 'p VerkleNode result" where
  "parseLeafNode E serialized dep =
     (let stemEnd = leafStemOffset + int (StemSize E) in
      if int (length serialized) < stemEnd then Inl (Error ErrTooShortForStem)
      else
        bind (slice serialized leafStemOffset stemEnd) (\<lambda>st.
        let bitlistEnd = leafBitlistOffset E + bitlistSize E in
        if int (length serialized) < bitlistEnd then Inl (Error ErrTooShortForBitlist)
        else
          bind (slice serialized (leafBitlistOffset E) bitlistEnd) (\<lambda>bitlist.
          let commitmentEnd = leafC2CommitmentOffset E + int (UncompressedSize E) in
          if int (length serialized) < commitmentEnd
          then Inl (Error ErrTooShortForCommitments)
          else
            bind (slice serialized (leafCommitmentOffset E)
                    (leafCommitmentOffset E + int (UncompressedSize E))) (\<lambda>commitmentBytes.
            bind (slice serialized (leafC1CommitmentOffset E)
                    (leafC1CommitmentOffset E + int (UncompressedSize E))) (\<lambda>c1Bytes.
            bind (slice serialized (leafC2CommitmentOffset E)
                    (leafC2CommitmentOffset E + int (UncompressedSize E))) (\<lambda>c2Bytes.
            let ln0 = setDepth (NewLeafNodeWithNoComms st (replicate (NodeWidth E) None)) dep in
            bind (setPoint E commitmentBytes ErrSettingCommitment) (\<lambda>cm.
            let ln1 = ln0\<lparr>commitment := Some cm\<rparr> in
            bind (setPoint E c1Bytes ErrSettingC1Commitment) (\<lambda>p1.
            let ln2 = ln1\<lparr>c1 := Some p1\<rparr> in
            bind (setPoint E c2Bytes ErrSettingC2Commitment) (\<lambda>p2.
            let ln3 = ln2\<lparr>c2 := Some p2\<rparr> in
            bind (for_range 0 (int (NodeWidth E)) (parseLeafNode_body E serialized bitlist)
                    (values' ln3, leafChildrenOffset E)) (\<lambda>(vs, offset).
            Inr (Leaf (ln3\<lparr>values' := vs\<rparr>))))))))))))"

text \<open>
  \<open>parseEoAccountNode\<close>: no length test; the slice expressions are taken as they
  come. \<open>values[0]\<close> and \<open>values[1]\<close> index an array of \<open>NodeWidth\<close> elements.
\<close>

definition parseEoAccountNode :: "'p codec \<Rightarrow> byte list \<Rightarrow> byte \<Rightarrow> 'p VerkleNode result" where
  "parseEoAccountNode E serialized dep =
     (let offset = leafStemOffset + int (StemSize E) + 2 * int (UncompressedSize E) in
      bind (slice serialized offset (offset + leafBasicDataSize)) (\<lambda>basicData.
      bind (assign (replicate (NodeWidth E) None) 0 (Some basicData)) (\<lambda>vs0.
      bind (assign vs0 1 (Some (EmptyCodeHash E))) (\<lambda>vs.
      bind (slice serialized leafStemOffset (leafStemOffset + int (StemSize E))) (\<lambda>st.
      let ln0 = setDepth (NewLeafNodeWithNoComms st vs) dep in
      bind (slice serialized (leafStemOffset + int (StemSize E))
              (leafStemOffset + int (StemSize E) + int (UncompressedSize E))) (\<lambda>c1Bytes.
      bind (setPoint E c1Bytes ErrSettingLeafC1Commitment) (\<lambda>p1.
      let ln1 = ln0\<lparr>c1 := Some p1, c2 := Some (Identity E)\<rparr> in
      bind (slice serialized (leafStemOffset + int (StemSize E) + int (UncompressedSize E))
              (leafStemOffset + int (StemSize E) + int (UncompressedSize E) * 2)) (\<lambda>cBytes.
      bind (setPoint E cBytes ErrSettingLeafRootCommitment) (\<lambda>cm.
      Inr (Leaf (ln1\<lparr>commitment := Some cm\<rparr>)))))))))))"

text \<open>
  \<open>parseSingleSlotNode\<close>: no length test either. The slot index is a byte, and
  \<open>values[idx]\<close> indexes an array of \<open>NodeWidth\<close> elements. The leaf is created from
  \<open>values[:]\<close> before the slot is stored; it holds a slice of the array, not a copy, so
  the slot stored in the array afterwards is a value of the leaf.
\<close>

definition parseSingleSlotNode :: "'p codec \<Rightarrow> byte list \<Rightarrow> byte \<Rightarrow> 'p VerkleNode result" where
  "parseSingleSlotNode E serialized dep =
     (let offset0 = leafStemOffset in
      bind (slice serialized offset0 (offset0 + int (StemSize E))) (\<lambda>st.
      let ln0 = NewLeafNodeWithNoComms st (replicate (NodeWidth E) None) in
      let offset1 = offset0 + int (StemSize E) in
      bind (slice serialized offset1 (offset1 + int (UncompressedSize E))) (\<lambda>cnCommBytes.
      let offset2 = offset1 + int (UncompressedSize E) in
      bind (slice serialized offset2 (offset2 + int (UncompressedSize E))) (\<lambda>rootCommBytes.
      let offset3 = offset2 + int (UncompressedSize E) in
      bind (elem serialized offset3) (\<lambda>idx.
      let offset4 = offset3 + leafValueIndexSize in
      bind (slice serialized offset4 (offset4 + leafSlotSize)) (\<lambda>slot.
      bind (assign (values' ln0) (uint idx) (Some slot)) (\<lambda>vs.
      let ln1 = setDepth (ln0\<lparr>values' := vs\<rparr>) dep in
      if idx < 128 then
        bind (setPoint E cnCommBytes ErrSettingLeafC1Commitment) (\<lambda>p1.
        let ln2 = ln1\<lparr>c1 := Some p1, c2 := Some (Identity E)\<rparr> in
        bind (setPoint E rootCommBytes ErrSettingLeafRootCommitment) (\<lambda>cm.
        Inr (Leaf (ln2\<lparr>commitment := Some cm\<rparr>))))
      else
        bind (setPoint E cnCommBytes ErrSettingLeafC2Commitment) (\<lambda>p2.
        let ln2 = ln1\<lparr>c2 := Some p2, c1 := Some (Identity E)\<rparr> in
        bind (setPoint E rootCommBytes ErrSettingLeafRootCommitment) (\<lambda>cm.
        Inr (Leaf (ln2\<lparr>commitment := Some cm\<rparr>)))))))))))"

text \<open>
  \<open>CreateInternalNode(bitlist, raw, depth)\<close>: \<open>for i, b := range bitlist\<close> with the
  inner loop over the eight masks; the length of \<open>raw\<close> is tested after the loops.
\<close>

definition CreateInternalNode_inner ::
  "byte \<Rightarrow> int \<Rightarrow> int \<Rightarrow> 'p VerkleNode list \<Rightarrow> 'p VerkleNode list result" where
  "CreateInternalNode_inner b i j cs =
     bind (elem mask' j) (\<lambda>m.
     if b AND m \<noteq> 0 then assign cs (8 * i + j) HashedNode
     else assign cs (8 * i + j) Empty)"

definition CreateInternalNode_outer ::
  "byte list \<Rightarrow> int \<Rightarrow> 'p VerkleNode list \<Rightarrow> 'p VerkleNode list result" where
  "CreateInternalNode_outer bitlist i cs =
     bind (elem bitlist i) (\<lambda>b. for_range 0 8 (CreateInternalNode_inner b i) cs)"

definition CreateInternalNode ::
  "'p codec \<Rightarrow> byte list \<Rightarrow> byte list \<Rightarrow> byte \<Rightarrow> 'p VerkleNode result" where
  "CreateInternalNode E bitlist raw dep =
     (if int (length bitlist) \<noteq> bitlistSize E then Inl (Error ErrInvalidNodeEncoding)
      else
        bind (for_range 0 (int (length bitlist)) (CreateInternalNode_outer bitlist)
                (replicate (NodeWidth E) NilNode)) (\<lambda>cs.
        if int (length raw) \<noteq> int (UncompressedSize E)
        then Inl (Error ErrInvalidNodeEncoding)
        else
          bind (setPoint E raw ErrSettingCommitment) (\<lambda>cm.
          Inr (InternalNode cs cm dep))))"

text \<open>
  The child that bit \<open>j\<close> of the byte \<open>b\<close> stands for, the bits of a byte being counted
  from the most significant one: a placeholder when the bit is set, \<open>Empty\<close> otherwise.
\<close>

definition childOf :: "byte \<Rightarrow> nat \<Rightarrow> 'p VerkleNode" where
  "childOf b j = (if bit b (7 - j) then HashedNode else Empty)"

text \<open>
  \<open>ParseNode(serializedNode, depth)\<close>: the minimum-length test, then the dispatch on
  the first byte, in the order of the \<open>switch\<close>. The call of \<open>fmt.Printf\<close> writes to the
  standard output and does not bear on the result.
\<close>

definition ParseNode :: "'p codec \<Rightarrow> byte list \<Rightarrow> byte \<Rightarrow> 'p VerkleNode result" where
  "ParseNode E serializedNode dep =
     (if int (length serializedNode) < nodeTypeSize + int (UncompressedSize E)
      then Inl (Error errSerializedPayloadTooShort)
      else
        bind (elem serializedNode 0) (\<lambda>nodeType.
        if nodeType = leafType E then parseLeafNode E serializedNode dep
        else if nodeType = internalType E then
          bind (slice serializedNode internalBitlistOffset (internalCommitmentOffset E))
            (\<lambda>bitlist.
          bind (slice_from serializedNode (internalCommitmentOffset E)) (\<lambda>raw.
          CreateInternalNode E bitlist raw dep))
        else if nodeType = eoAccountType E then parseEoAccountNode E serializedNode dep
        else if nodeType = singleSlotType E then parseSingleSlotNode E serializedNode dep
        else Inl (Error ErrInvalidNodeEncoding)))"

text \<open>
  An environment with the sizes of the tree package: 256 children per node, 31-byte
  stems, 32-byte values and 64-byte uncompressed points. The tags are four distinct
  bytes, the point decoder accepts every input and keeps the bytes, and the empty code
  hash is left as 32 zero bytes. Only the sizes and the distinctness of the tags matter
  to what is proved with this environment.
\<close>

definition verkle :: "byte list codec" where
  "verkle =
     \<lparr>NodeWidth = 256, StemSize = 31, LeafValueSize = 32, UncompressedSize = 64,
      leafType = 1, internalType = 2, eoAccountType = 3, singleSlotType = 4,
      EmptyCodeHash = replicate 32 0, Identity = [],
      SetBytesUncompressed = Some\<rparr>"

text \<open>
  An algebra library to run the configuration and the polynomial algebra on: the
  rational numbers as the field and as the group, scalar multiplication as the product,
  and \<open>-1\<close> in every entry of the table of roots; \<open>-1\<close> is a root of unity of every
  even order. The FFT that goes with it returns its input.
\<close>

definition bls_rat :: "(rat, rat) bls" where
  "bls_rat =
     \<lparr>Scale2RootOfUnity = replicate 32 (- 1), divZero = (\<lambda>a. 0), invZero = 0,
      MulG1 = (\<lambda>p c. p * c)\<rparr>"

definition kzg_rat :: "(rat, rat, rat) kzg" where
  "kzg_rat = \<lparr>GenG1 = 1, GenG2 = 1, MulG2 = (\<lambda>p c. p * c), FFTG1 = (\<lambda>scale vals. Some vals)\<rparr>"


section \<open>Properties of slices, sequencing and loops\<close>

lemma slice_ok:
  "0 \<le> lo \<Longrightarrow> lo \<le> hi \<Longrightarrow> hi \<le> int (length s) \<Longrightarrow>
   slice s lo hi = Inr (take (nat (hi - lo)) (drop (nat lo) s))"
  by (simp add: slice_def)

lemma slice_eq_Inr:
  "slice s lo hi = Inr r \<Longrightarrow>
   0 \<le> lo \<and> lo \<le> hi \<and> hi \<le> int (length s) \<and> r = take (nat (hi - lo)) (drop (nat lo) s)"
  by (auto simp: slice_def split: if_splits)

lemma elem_ok: "0 \<le> i \<Longrightarrow> i < int (length s) \<Longrightarrow> elem s i = Inr (s ! nat i)"
  by (simp add: elem_def)

lemma assign_ok:
  "0 \<le> i \<Longrightarrow> i < int (length s) \<Longrightarrow> assign s i v = Inr (s[nat i := v])"
  by (simp add: assign_def)

lemma make_slice_ok: "0 \<le> n \<Longrightarrow> make_slice z n = Inr (replicate (nat n) z)"
  by (simp add: make_slice_def)

lemma make_slice_eq_Inr: "make_slice z n = Inr s \<Longrightarrow> 0 \<le> n \<and> s = replicate (nat n) z"
  by (auto simp: make_slice_def split: if_splits)

lemma rem_nonneg: "0 \<le> a \<Longrightarrow> 0 < b \<Longrightarrow> rem a b = Inr (a mod b)"
  by (simp add: rem_def signed_modulo_int_def sgn_if abs_if)

lemma bind_Inr [simp]: "bind (Inr v) f = f v"
  by (simp add: bind_def)

lemma bind_Inl [simp]: "bind (Inl e) f = Inl e"
  by (simp add: bind_def)

lemma bind_eq_Inr: "bind m f = Inr v \<longleftrightarrow> (\<exists>x. m = Inr x \<and> f x = Inr v)"
  by (cases m) (simp_all add: bind_def)

lemma for_range_rule:
  assumes "I i s" and "i \<le> n"
    and step: "\<And>k t. i \<le> k \<Longrightarrow> k < n \<Longrightarrow> I k t \<Longrightarrow> \<exists>t'. body k t = Inr t' \<and> I (k + 1) t'"
  shows "\<exists>t. for_range i n body s = Inr t \<and> I n t"
  using assms
proof (induction "nat (n - i)" arbitrary: i s)
  case 0
  then have "i = n" by simp
  with 0 show ?case by (simp add: for_range.simps)
next
  case (Suc m)
  then have lt: "i < n" by linarith
  from Suc.prems(3) [of i s] lt Suc.prems(1) obtain t' where
    t': "body i s = Inr t'" "I (i + 1) t'" by auto
  have "\<exists>t. for_range (i + 1) n body t' = Inr t \<and> I n t"
  proof (rule Suc.hyps(1))
    show "m = nat (n - (i + 1))" using Suc.hyps(2) by linarith
    show "I (i + 1) t'" by (rule t')
    show "i + 1 \<le> n" using lt by simp
    show "\<And>k t. i + 1 \<le> k \<Longrightarrow> k < n \<Longrightarrow> I k t \<Longrightarrow> \<exists>t'. body k t = Inr t' \<and> I (k + 1) t'"
      using Suc.prems(3) by simp
  qed
  then show ?case using lt t' by (subst for_range.simps) simp
qed

lemma sint_exp_64:
  assumes "n < 63"
  shows "sint ((2::64 word) ^ n) = 2 ^ n"
proof -
  have "(2::64 word) ^ n = word_of_int (2 ^ n)" by simp
  then have "sint ((2::64 word) ^ n) = signed_take_bit 63 ((2::int) ^ n)"
    by (simp only: sint_sbintrunc') simp
  also have "\<dots> = 2 ^ n"
  proof (rule signed_take_bit_int_eq_self)
    show "- (2 ^ 63) \<le> (2::int) ^ n"
      by (rule order_trans [of _ 0]) simp_all
    have "(2::int) ^ n < 2 ^ 63"
      using assms by (intro power_strict_increasing) simp_all
    then show "(2::int) ^ n < 2 ^ 63" .
  qed
  finally show ?thesis .
qed

lemma shl1_small: "0 \<le> w \<Longrightarrow> w < 63 \<Longrightarrow> shl1 w = Inr (2 ^ nat w)"
  by (simp add: shl1_def push_bit_of_1 sint_exp_64)

lemma shl1_63: "shl1 63 = Inr (- (2 ^ 63))"
  by (simp add: shl1_def)

lemma shl1_large:
  assumes "64 \<le> w"
  shows "shl1 w = Inr 0"
proof -
  have "64 \<le> nat w" using assms by linarith
  then have "(2::64 word) ^ nat w = 0" by simp
  then have "sint ((2::64 word) ^ nat w) = 0" by (simp only: sint_0)
  then show ?thesis using assms by (simp add: shl1_def)
qed

lemma shl1_eq_Inr:
  assumes "shl1 w = Inr n" and "0 < n"
  shows "0 \<le> w \<and> w < 63 \<and> n = 2 ^ nat w"
proof -
  have nonneg: "0 \<le> w" using assms by (auto simp: shl1_def split: if_splits)
  have "w < 63"
  proof (rule ccontr)
    assume "\<not> w < 63"
    then consider "w = 63" | "64 \<le> w" by linarith
    then show False
      using assms by cases (simp_all add: shl1_63 shl1_large)
  qed
  with nonneg assms show ?thesis by (simp add: shl1_small)
qed

lemma nat_mod_less: "0 < n \<Longrightarrow> nat (a mod int n) < n"
proof -
  assume "0 < n"
  then have "0 \<le> a mod int n" "a mod int n < int n" by simp_all
  then show ?thesis by linarith
qed

lemma block_div:
  fixes a k :: nat
  assumes "8 * a \<le> k" and "k < 8 * a + 8"
  shows "k div 8 = a"
proof -
  have "k div 8 = ((k - 8 * a) + a * 8) div 8" using assms by simp
  also have "\<dots> = a + (k - 8 * a) div 8" by (rule div_mult_self1) simp
  also have "\<dots> = a" using assms by simp
  finally show ?thesis .
qed

lemma block_mod:
  fixes a k :: nat
  assumes "8 * a \<le> k" and "k < 8 * a + 8"
  shows "k mod 8 = k - 8 * a"
proof -
  have "k mod 8 = k - 8 * (k div 8)" by (rule minus_mult_div_eq_mod [symmetric])
  then show ?thesis by (simp add: block_div [OF assms])
qed

section \<open>Properties of the key paths\<close>

text \<open>
  What \<open>equalPaths\<close> computes at width 10 on keys that have a byte 31: the 31-byte
  prefixes are compared, and of the final byte the bits 7 and 5 (the mask \<open>0xa0\<close>).
\<close>

lemma equalPaths_width10:
  assumes "width tc = 10" and "length key1 = length key2" and "32 \<le> length key1"
  shows "equalPaths tc key1 key2 =
           Inr (take 31 key1 = take 31 key2 \<and> key1 ! 31 AND 0xa0 = key2 ! 31 AND 0xa0)"
  using assms by (simp add: equalPaths_def slice_ok elem_ok)

lemma equalPaths_width10_bit6:
  "equalPaths (tc\<lparr>width := 10\<rparr>) (replicate 31 0 @ [0x40]) (replicate 32 0) = Inr True"
proof -
  have "equalPaths (tc\<lparr>width := 10\<rparr>) (replicate 31 0 @ [0x40]) (replicate 32 0)
      = Inr (take 31 (replicate 31 (0::byte) @ [0x40]) = take 31 (replicate 32 (0::byte))
             \<and> (replicate 31 (0::byte) @ [0x40]) ! 31 AND 0xa0
                 = replicate 32 (0::byte) ! 31 AND 0xa0)"
    by (rule equalPaths_width10) simp_all
  also have "take 31 (replicate 31 (0::byte) @ [0x40]) = take 31 (replicate 32 (0::byte))"
    by simp
  also have "(replicate 31 (0::byte) @ [0x40]) ! 31 = 0x40" by (simp add: nth_append)
  also have "replicate 32 (0::byte) ! 31 = 0" by simp
  finally show ?thesis by simp
qed

lemma equalPaths_width10_bit5:
  "equalPaths (tc\<lparr>width := 10\<rparr>) (replicate 31 0 @ [0x20]) (replicate 32 0) = Inr False"
proof -
  have "equalPaths (tc\<lparr>width := 10\<rparr>) (replicate 31 0 @ [0x20]) (replicate 32 0)
      = Inr (take 31 (replicate 31 (0::byte) @ [0x20]) = take 31 (replicate 32 (0::byte))
             \<and> (replicate 31 (0::byte) @ [0x20]) ! 31 AND 0xa0
                 = replicate 32 (0::byte) ! 31 AND 0xa0)"
    by (rule equalPaths_width10) simp_all
  also have "(replicate 31 (0::byte) @ [0x20]) ! 31 = 0x20" by (simp add: nth_append)
  also have "replicate 32 (0::byte) ! 31 = 0" by simp
  finally show ?thesis by simp
qed

lemma equalPaths10_spec_bit6:
  assumes "2 \<le> k" and "k \<le> 8"
  shows "\<not> equalPaths10_spec k (replicate 31 0 @ [0x40]) (replicate 32 0)"
proof -
  have b1: "(replicate 31 (0::byte) @ [0x40]) ! 31 = 0x40" by (simp add: nth_append)
  have b2: "replicate 32 (0::byte) ! 31 = 0" by simp
  from assms have "k \<in> {2, 3, 4, 5, 6, 7, 8}" by auto
  then have "topBits k (0x40::byte) \<noteq> topBits k 0"
    by (auto simp: topBits_def drop_bit_eq_div)
  then show ?thesis by (simp only: equalPaths10_spec_def b1 b2) simp
qed

lemma equalPaths10_spec_bit5:
  "equalPaths10_spec 1 (replicate 31 0 @ [0x20]) (replicate 32 0)
   \<and> equalPaths10_spec 2 (replicate 31 0 @ [0x20]) (replicate 32 0)"
proof -
  have b1: "(replicate 31 (0::byte) @ [0x20]) ! 31 = 0x20" by (simp add: nth_append)
  have b2: "replicate 32 (0::byte) ! 31 = 0" by simp
  have "topBits 1 (0x20::byte) = topBits 1 0" "topBits 2 (0x20::byte) = topBits 2 0"
    by (simp_all add: topBits_def drop_bit_eq_div)
  then show ?thesis by (simp only: equalPaths10_spec_def b1 b2) simp
qed

text \<open>
  Whatever number \<open>k\<close> of top bits of the final byte is meant, \<open>equalPaths\<close> at width
  10 is not the comparison of the first 31 bytes and of these \<open>k\<close> bits.
\<close>

lemma equalPaths_width10_no_top_bits:
  assumes "1 \<le> k" and "k \<le> 8"
  shows "\<exists>key1 key2. length key1 = 32 \<and> length key2 = 32
           \<and> equalPaths (tc\<lparr>width := 10\<rparr>) key1 key2 \<noteq> Inr (equalPaths10_spec k key1 key2)"
proof (cases "k = 1")
  case True
  have "equalPaths (tc\<lparr>width := 10\<rparr>) (replicate 31 0 @ [0x20]) (replicate 32 0)
      \<noteq> Inr (equalPaths10_spec k (replicate 31 0 @ [0x20]) (replicate 32 0))"
    using equalPaths10_spec_bit5 True by (simp add: equalPaths_width10_bit5)
  moreover have "length (replicate 31 (0::byte) @ [0x20]) = 32" by simp
  moreover have "length (replicate 32 (0::byte)) = 32" by simp
  ultimately show ?thesis by blast
next
  case False
  then have "2 \<le> k" using assms by simp
  then have "equalPaths (tc\<lparr>width := 10\<rparr>) (replicate 31 0 @ [0x40]) (replicate 32 0)
      \<noteq> Inr (equalPaths10_spec k (replicate 31 0 @ [0x40]) (replicate 32 0))"
    using equalPaths10_spec_bit6 assms(2) by (simp add: equalPaths_width10_bit6)
  moreover have "length (replicate 31 (0::byte) @ [0x40]) = 32" by simp
  moreover have "length (replicate 32 (0::byte)) = 32" by simp
  ultimately show ?thesis by blast
qed

text \<open>
  C2. For width 10 the specification asks for the top bits of the final byte to agree.
  The mask \<open>0xa0\<close> selects the bits 7 and 5 and leaves bit 6 out. Two keys that agree on
  their first 31 bytes and differ in bit 6 of the final byte, one of its top two bits,
  are reported equal; two keys that agree on the first 31 bytes and on the top two bits
  of the final byte, and differ in its bit 5, are reported unequal.
\<close>

theorem equalPaths_width10_ignores_bit6:
  "equalPaths (tc\<lparr>width := 10\<rparr>) (replicate 31 0 @ [0x40]) (replicate 32 0) = Inr True
   \<and> \<not> equalPaths10_spec 2 (replicate 31 0 @ [0x40]) (replicate 32 0)
   \<and> equalPaths (tc\<lparr>width := 10\<rparr>) (replicate 31 0 @ [0x20]) (replicate 32 0) = Inr False
   \<and> equalPaths10_spec 2 (replicate 31 0 @ [0x20]) (replicate 32 0)"
  using equalPaths_width10_bit6 [of tc] equalPaths_width10_bit5 [of tc]
    equalPaths10_spec_bit6 [of 2] equalPaths10_spec_bit5
  by simp

text \<open>
  C10. Keys of unequal lengths: \<open>equalPaths\<close> returns false, for every width and
  whatever the keys hold; it does not panic, since the length test comes before the
  dispatch on the width and before any byte of a key is read.
\<close>

theorem equalPaths_unequal_lengths:
  "length key1 \<noteq> length key2 \<Longrightarrow> equalPaths tc key1 key2 = Inr False"
  by (simp add: equalPaths_def)

theorem equalPaths_unequal_lengths_witness:
  "length [1::byte] \<noteq> length ([]::byte list)
   \<and> equalPaths \<lparr>width = 7, nodeWidth = 128, modulus = 0, omegaIs = [],
         inverses = [], nodeWidthInversed = (0::rat), lg1 = ([]::rat list),
         multiExpThreshold = 25\<rparr> [1] [] = Inr False"
  using equalPaths_unequal_lengths [of "[1]" "[]"] by simp

section \<open>Properties of the bit lists\<close>

lemma mask'_nth: "j < 8 \<Longrightarrow> mask' ! j = (2::byte) ^ (7 - j)"
proof -
  assume "j < 8"
  then have "j \<in> {0, 1, 2, 3, 4, 5, 6, 7}" by auto
  then show ?thesis by (auto simp: mask'_def)
qed

lemma mask'_bit: "j < 8 \<Longrightarrow> (b AND mask' ! j \<noteq> 0) = bit (b::byte) (7 - j)"
  by (simp add: mask'_nth and_exp_eq_0_iff_not_bit)

lemma length_mask' [simp]: "length mask' = 8"
  by (simp add: mask'_def)

text \<open>
  C9. For a bit index \<open>nr \<ge> 0\<close> the helper \<open>bit\<close> returns, and does not panic: false
  when \<open>nr\<close> is at or beyond 8 times the length of the bit list, and otherwise whether
  bit \<open>nr\<close> is set, the bits of each byte being counted from the most significant one
  (bit \<open>nr\<close> is bit \<open>7 - nr mod 8\<close>, counted from the least significant one, of the byte
  \<open>nr div 8\<close>).
\<close>

theorem bit'_nonneg:
  assumes "0 \<le> nr"
  shows "bit' bitlist nr =
           Inr (nr < 8 * int (length bitlist)
                \<and> bit (bitlist ! nat (nr div 8)) (7 - nat (nr mod 8)))"
proof (cases "int (length bitlist) * 8 \<le> nr")
  case True
  then show ?thesis by (simp add: bit'_def)
next
  case False
  have d: "nr sdiv 8 = nr div 8" and m: "nr smod 8 = nr mod 8"
    using assms by (simp_all add: signed_divide_int_def signed_modulo_int_def sgn_if)
  have r1: "0 \<le> nr div 8" "nr div 8 < int (length bitlist)"
    using assms False by auto
  have r2: "0 \<le> nr mod 8" "nr mod 8 < 8" by auto
  have "nat (nr mod 8) < 8" using r2 by linarith
  then have "(bitlist ! nat (nr div 8) AND mask' ! nat (nr mod 8) \<noteq> 0)
      = bit (bitlist ! nat (nr div 8)) (7 - nat (nr mod 8))"
    by (rule mask'_bit)
  then show ?thesis
    using False r1 r2 by (simp add: bit'_def d m elem_ok)
qed

text \<open>
  C9 as stated speaks of every bit index. The parameter \<open>nr\<close> is an \<open>int\<close>, and the
  only guard is the upper one: on \<open>nr = -1\<close> the guard lets the call through and the
  index expression \<open>mask[nr%8]\<close>, with \<open>-1 % 8 = -1\<close>, panics.
\<close>

theorem bit'_negative_panics: "bit' [0xff] (- 1) = Inl (Panic IndexOutOfRange)"
  by (simp add: bit'_def elem_def signed_divide_int_def signed_modulo_int_def mask'_def)

theorem bit'_nonneg_witness: "(0::int) \<le> 0 \<and> bit' [0x80] 0 = Inr True"
  using bit'_nonneg [of 0 "[0x80]"] by simp

section \<open>Properties of the node codec\<close>

text \<open>
  C6. An input shorter than the tag plus one uncompressed point is answered with the
  error \<open>errSerializedPayloadTooShort\<close>, whatever it holds: the test comes before the
  tag byte is read, nothing of the input is indexed, and the outcome is a returned error,
  not a panic.
\<close>

theorem ParseNode_too_short:
  "int (length serializedNode) < nodeTypeSize + int (UncompressedSize E) \<Longrightarrow>
   ParseNode E serializedNode dep = Inl (Error errSerializedPayloadTooShort)"
  by (simp add: ParseNode_def)

theorem ParseNode_too_short_witness:
  "int (length ([]::byte list)) < nodeTypeSize + int (UncompressedSize verkle)
   \<and> ParseNode verkle [] 0 = Inl (Error errSerializedPayloadTooShort)"
  using ParseNode_too_short [of "[]" verkle 0] by (simp add: nodeTypeSize_def verkle_def)

text \<open>
  The two specialised leaf decoders on an input shorter than their encoding: the first
  slice or index expression that reaches beyond the input panics. \<open>ParseNode\<close> lets
  such an input through whenever it has at least \<open>nodeTypeSize + UncompressedSize\<close>
  bytes.
\<close>

lemma parseEoAccountNode_truncated:
  "int (length serialized) < eoaLeafSize E \<Longrightarrow>
   parseEoAccountNode E serialized dep = Inl (Panic SliceBoundsOutOfRange)"
  by (simp add: parseEoAccountNode_def eoaLeafSize_def slice_def Let_def
      leafStemOffset_def nodeTypeOffset_def nodeTypeSize_def leafBasicDataSize_def)

lemma parseSingleSlotNode_truncated:
  assumes "int (length serialized) < singleSlotLeafSize E"
  shows "parseSingleSlotNode E serialized dep = Inl (Panic SliceBoundsOutOfRange)
         \<or> parseSingleSlotNode E serialized dep = Inl (Panic IndexOutOfRange)"
  using assms
  by (simp add: parseSingleSlotNode_def singleSlotLeafSize_def slice_def elem_def Let_def
      leafStemOffset_def nodeTypeOffset_def nodeTypeSize_def leafSlotSize_def
      leafValueIndexSize_def)

lemma ParseNode_eoAccount_truncated:
  assumes "nodeTypeSize + int (UncompressedSize E) \<le> int (length serializedNode)"
    and "int (length serializedNode) < eoaLeafSize E"
    and "serializedNode ! 0 = eoAccountType E"
    and "eoAccountType E \<noteq> leafType E" and "eoAccountType E \<noteq> internalType E"
  shows "ParseNode E serializedNode dep = Inl (Panic SliceBoundsOutOfRange)"
proof -
  have "0 < int (length serializedNode)"
    using assms(1) unfolding nodeTypeSize_def by linarith
  then have "elem serializedNode 0 = Inr (eoAccountType E)"
    using assms(3) by (simp add: elem_def)
  then show ?thesis
    using assms by (simp add: ParseNode_def parseEoAccountNode_truncated)
qed

text \<open>
  C1. With the sizes of the tree package (\<open>eoaLeafSize = 192\<close>,
  \<open>singleSlotLeafSize = 193\<close>), a 65-byte input passes the minimum-length test of
  \<open>ParseNode\<close>. Tagged as an externally-owned account or as a single-slot leaf it is
  handed to a decoder that slices without a length test, and the outcome is a run-time
  panic, not a returned error.
\<close>

theorem ParseNode_truncated_panics:
  "ParseNode verkle (3 # replicate 64 0) dep = Inl (Panic SliceBoundsOutOfRange)
   \<and> ParseNode verkle (4 # replicate 64 0) dep = Inl (Panic SliceBoundsOutOfRange)"
  by (simp add: ParseNode_def parseEoAccountNode_def parseSingleSlotNode_def verkle_def
      slice_def elem_def Let_def leafStemOffset_def nodeTypeOffset_def nodeTypeSize_def
      leafBasicDataSize_def)

lemma CreateInternalNode_inner_step:
  assumes "0 \<le> j" "j < 8" "0 \<le> i" "8 * i + 8 \<le> int (length cs)"
  shows "CreateInternalNode_inner b i j cs = Inr (cs[nat (8 * i + j) := childOf b (nat j)])"
proof -
  have "nat j < 8" using assms by linarith
  then have "(b AND mask' ! nat j \<noteq> 0) = bit b (7 - nat j)" by (rule mask'_bit)
  then show ?thesis
    using assms by (simp add: CreateInternalNode_inner_def elem_ok assign_ok childOf_def)
qed

lemma CreateInternalNode_inner_loop:
  fixes cs :: "'p VerkleNode list"
  assumes "0 \<le> i" "8 * i + 8 \<le> int (length cs)"
  shows "\<exists>cs'. for_range 0 8 (CreateInternalNode_inner b i) cs = Inr cs'
           \<and> length cs' = length cs
           \<and> (\<forall>k < length cs. cs' ! k =
                 (if 8 * nat i \<le> k \<and> k < 8 * nat i + 8 then childOf b (k - 8 * nat i)
                  else cs ! k))"
proof -
  define I where "I = (\<lambda>j (t :: 'p VerkleNode list). length t = length cs
      \<and> (\<forall>k < length cs. t ! k =
            (if 8 * nat i \<le> k \<and> k < 8 * nat i + nat j then childOf b (k - 8 * nat i)
             else cs ! k)))"
  have "\<exists>t. for_range 0 8 (CreateInternalNode_inner b i) cs = Inr t \<and> I 8 t"
  proof (rule for_range_rule)
    show "I 0 cs" by (auto simp: I_def)
    show "(0::int) \<le> 8" by simp
  next
    fix j and t :: "'p VerkleNode list"
    assume j: "0 \<le> j" "j < 8" and inv: "I j t"
    have len: "length t = length cs" using inv by (simp add: I_def)
    have step: "CreateInternalNode_inner b i j t = Inr (t[nat (8 * i + j) := childOf b (nat j)])"
      using j assms len by (intro CreateInternalNode_inner_step) simp_all
    have pos: "nat (8 * i + j) = 8 * nat i + nat j"
      using j assms by (simp add: nat_add_distrib nat_mult_distrib)
    have "I (j + 1) (t[nat (8 * i + j) := childOf b (nat j)])"
      unfolding I_def
    proof (intro conjI allI impI)
      show "length (t[nat (8 * i + j) := childOf b (nat j)]) = length cs"
        using len by simp
    next
      fix k assume k: "k < length cs"
      have nj: "nat (j + 1) = nat j + 1" using j by (simp add: nat_add_distrib)
      show "t[nat (8 * i + j) := childOf b (nat j)] ! k =
          (if 8 * nat i \<le> k \<and> k < 8 * nat i + nat (j + 1) then childOf b (k - 8 * nat i)
           else cs ! k)"
      proof (cases "k = 8 * nat i + nat j")
        case True
        then show ?thesis using k len by (simp add: pos nj)
      next
        case False
        have "t ! k = (if 8 * nat i \<le> k \<and> k < 8 * nat i + nat j
                       then childOf b (k - 8 * nat i) else cs ! k)"
          using inv k by (simp add: I_def)
        then show ?thesis using False by (auto simp: pos nj)
      qed
    qed
    with step show "\<exists>t'. CreateInternalNode_inner b i j t = Inr t' \<and> I (j + 1) t'"
      by blast
  qed
  then show ?thesis by (auto simp: I_def)
qed

lemma CreateInternalNode_outer_loop:
  fixes cs :: "'p VerkleNode list"
  assumes "8 * length bitlist \<le> length cs"
  shows "\<exists>cs'. for_range 0 (int (length bitlist)) (CreateInternalNode_outer bitlist) cs = Inr cs'
           \<and> length cs' = length cs
           \<and> (\<forall>k < length cs. cs' ! k =
                 (if k < 8 * length bitlist then childOf (bitlist ! (k div 8)) (k mod 8)
                  else cs ! k))"
proof -
  define I where "I = (\<lambda>i (t :: 'p VerkleNode list). length t = length cs
      \<and> (\<forall>k < length cs. t ! k =
            (if k < 8 * nat i then childOf (bitlist ! (k div 8)) (k mod 8) else cs ! k)))"
  have "\<exists>t. for_range 0 (int (length bitlist)) (CreateInternalNode_outer bitlist) cs = Inr t
          \<and> I (int (length bitlist)) t"
  proof (rule for_range_rule)
    show "I 0 cs" by (simp add: I_def)
    show "0 \<le> int (length bitlist)" by simp
  next
    fix i and t :: "'p VerkleNode list"
    assume i: "0 \<le> i" "i < int (length bitlist)" and inv: "I i t"
    have len: "length t = length cs" using inv by (simp add: I_def)
    have ni: "nat i < length bitlist" using i by linarith
    have room: "8 * i + 8 \<le> int (length t)" using i assms len by linarith
    obtain t' where t': "for_range 0 8 (CreateInternalNode_inner (bitlist ! nat i) i) t = Inr t'"
      "length t' = length t"
      "\<forall>k < length t. t' ! k =
         (if 8 * nat i \<le> k \<and> k < 8 * nat i + 8 then childOf (bitlist ! nat i) (k - 8 * nat i)
          else t ! k)"
      using CreateInternalNode_inner_loop [OF i(1) room, of "bitlist ! nat i"] by blast
    have run: "CreateInternalNode_outer bitlist i t = Inr t'"
      using i t'(1) by (simp add: CreateInternalNode_outer_def elem_ok)
    have "I (i + 1) t'"
      unfolding I_def
    proof (intro conjI allI impI)
      show "length t' = length cs" using t'(2) len by simp
    next
      fix k assume k: "k < length cs"
      have ni1: "nat (i + 1) = nat i + 1" using i by (simp add: nat_add_distrib)
      show "t' ! k = (if k < 8 * nat (i + 1) then childOf (bitlist ! (k div 8)) (k mod 8)
                      else cs ! k)"
      proof (cases "8 * nat i \<le> k \<and> k < 8 * nat i + 8")
        case True
        then have "k div 8 = nat i" and "k mod 8 = k - 8 * nat i"
          by (simp_all add: block_div block_mod)
        then show ?thesis using True t'(3) k len by (simp add: ni1)
      next
        case False
        have "t' ! k = t ! k" using False t'(3) k len by auto
        also have "t ! k = (if k < 8 * nat i then childOf (bitlist ! (k div 8)) (k mod 8)
                            else cs ! k)"
          using inv k by (simp add: I_def)
        finally show ?thesis using False by (auto simp: ni1)
      qed
    qed
    with run show "\<exists>t'. CreateInternalNode_outer bitlist i t = Inr t' \<and> I (i + 1) t'"
      by blast
  qed
  then show ?thesis by (auto simp: I_def)
qed

lemma CreateInternalNode_children:
  assumes ok: "CreateInternalNode E bitlist raw dep = Inr n" and dv: "8 dvd NodeWidth E"
  shows "\<exists>cs cm. n = InternalNode cs cm dep \<and> length cs = NodeWidth E
           \<and> int (length bitlist) = bitlistSize E
           \<and> (\<forall>k < NodeWidth E. cs ! k = childOf (bitlist ! (k div 8)) (k mod 8))"
proof -
  have bl: "int (length bitlist) = bitlistSize E"
    using ok by (auto simp: CreateInternalNode_def split: if_splits)
  then have full: "8 * length bitlist = NodeWidth E"
    using dv by (auto simp: bitlistSize_def)
  obtain cs where cs:
    "for_range 0 (int (length bitlist)) (CreateInternalNode_outer bitlist)
       (replicate (NodeWidth E) (NilNode :: 'a VerkleNode)) = Inr cs"
    "length cs = NodeWidth E"
    "\<forall>k < NodeWidth E. cs ! k = childOf (bitlist ! (k div 8)) (k mod 8)"
    using CreateInternalNode_outer_loop
      [of bitlist "replicate (NodeWidth E) (NilNode :: 'a VerkleNode)"] full
    by auto
  from ok bl cs(1) obtain cm where "n = InternalNode cs cm dep"
    by (auto simp: CreateInternalNode_def bind_eq_Inr split: if_splits)
  with cs bl show ?thesis by blast
qed

lemma parseLeafNode_is_leaf:
  "parseLeafNode E s d = Inr n \<Longrightarrow> \<exists>leaf. n = Leaf leaf"
  by (auto simp: parseLeafNode_def bind_eq_Inr Let_def split: if_splits prod.splits)

lemma parseEoAccountNode_is_leaf:
  "parseEoAccountNode E s d = Inr n \<Longrightarrow> \<exists>leaf. n = Leaf leaf"
  by (auto simp: parseEoAccountNode_def bind_eq_Inr Let_def split: if_splits prod.splits)

lemma parseSingleSlotNode_is_leaf:
  "parseSingleSlotNode E s d = Inr n \<Longrightarrow> \<exists>leaf. n = Leaf leaf"
  by (auto simp: parseSingleSlotNode_def bind_eq_Inr Let_def split: if_splits prod.splits)

lemma ParseNode_internal:
  assumes "ParseNode E s dep = Inr (InternalNode cs cm d)"
  shows "\<exists>bitlist raw. slice s internalBitlistOffset (internalCommitmentOffset E) = Inr bitlist
           \<and> CreateInternalNode E bitlist raw dep = Inr (InternalNode cs cm d)"
  using assms
  by (auto simp: ParseNode_def bind_eq_Inr split: if_splits
      dest: parseLeafNode_is_leaf parseEoAccountNode_is_leaf parseSingleSlotNode_is_leaf)

text \<open>
  C5. When \<open>ParseNode\<close> returns an internal node (for a \<open>NodeWidth\<close> that is a
  multiple of 8, as a bit list of \<open>NodeWidth / 8\<close> bytes asks), the node has exactly
  \<open>NodeWidth\<close> children, and child \<open>k\<close> is a \<open>HashedNode\<close> if bit \<open>k\<close> of the bit list
  is set and \<open>Empty\<close> otherwise. The bit list is the bytes 1 to \<open>NodeWidth / 8\<close> of the
  input; its bit \<open>k\<close>, most significant bit first, is bit \<open>7 - k mod 8\<close> of the byte
  \<open>k div 8\<close>.
\<close>

theorem ParseNode_internal_children:
  assumes ok: "ParseNode E serializedNode dep = Inr (InternalNode cs cm d)"
    and dv: "8 dvd NodeWidth E"
  shows "length cs = NodeWidth E
         \<and> (\<forall>k < NodeWidth E.
               cs ! k = (if bit (serializedNode ! (1 + k div 8)) (7 - k mod 8)
                         then HashedNode else Empty))"
proof -
  from ParseNode_internal [OF ok] obtain bitlist raw where
    sl: "slice serializedNode internalBitlistOffset (internalCommitmentOffset E) = Inr bitlist"
    and cr: "CreateInternalNode E bitlist raw dep = Inr (InternalNode cs cm d)"
    by blast
  from CreateInternalNode_children [OF cr dv] have
    len: "length cs = NodeWidth E" and bl: "int (length bitlist) = bitlistSize E"
    and ch: "\<forall>k < NodeWidth E. cs ! k = childOf (bitlist ! (k div 8)) (k mod 8)"
    by auto
  from slice_eq_Inr [OF sl] have
    bnd: "internalCommitmentOffset E \<le> int (length serializedNode)"
    and bits: "bitlist = take (NodeWidth E div 8) (drop 1 serializedNode)"
    by (simp_all add: internalCommitmentOffset_def internalBitlistOffset_def
        nodeTypeOffset_def nodeTypeSize_def bitlistSize_def)
  have "cs ! k = (if bit (serializedNode ! (1 + k div 8)) (7 - k mod 8)
                  then HashedNode else Empty)" if k: "k < NodeWidth E" for k
  proof -
    have kd: "k div 8 < NodeWidth E div 8"
      using k dv by (auto simp: less_mult_imp_div_less elim!: dvdE)
    have "1 + NodeWidth E div 8 \<le> length serializedNode"
      using bnd by (simp add: internalCommitmentOffset_def internalBitlistOffset_def
          nodeTypeOffset_def nodeTypeSize_def bitlistSize_def)
    then have "bitlist ! (k div 8) = serializedNode ! (1 + k div 8)"
      using kd by (simp add: bits)
    then show ?thesis using ch k by (simp add: childOf_def)
  qed
  with len show ?thesis by blast
qed

theorem ParseNode_internal_children_witness:
  "ParseNode verkle (2 # (0x80 # replicate 31 0) @ replicate 64 0) 0
     = Inr (InternalNode (HashedNode # replicate 255 Empty) (replicate 64 0) 0)
   \<and> 8 dvd NodeWidth verkle
   \<and> length (HashedNode # replicate 255 (Empty :: byte list VerkleNode)) = NodeWidth verkle
   \<and> (HashedNode # replicate 255 (Empty :: byte list VerkleNode)) ! 0 = HashedNode"
proof -
  have run: "ParseNode verkle (2 # (0x80 # replicate 31 0) @ replicate 64 0) 0
     = Inr (InternalNode (HashedNode # replicate 255 Empty) (replicate 64 0) 0)"
    by code_simp
  have dv: "8 dvd NodeWidth verkle" by (simp add: verkle_def)
  from ParseNode_internal_children [OF run dv] run dv show ?thesis by simp
qed

section \<open>Properties of the tree configuration\<close>

lemma omegaIs_loop:
  fixes L :: "('a::field, 'g) bls"
  assumes w: "0 \<le> w" "nat w < length (Scale2RootOfUnity L)" and n: "0 \<le> n"
  shows "\<exists>os tmp. for_range 0 n (omegaIs_body L w) (replicate (nat n) 0, 1) = Inr (os, tmp)
           \<and> length os = nat n
           \<and> (\<forall>k < nat n. os ! k = (Scale2RootOfUnity L ! nat w) ^ k)"
proof -
  define om where "om = Scale2RootOfUnity L ! nat w"
  define I where "I = (\<lambda>k (st :: 'a list \<times> 'a). length (fst st) = nat n
      \<and> snd st = om ^ nat k \<and> (\<forall>j < nat k. fst st ! j = om ^ j))"
  have "\<exists>st. for_range 0 n (omegaIs_body L w) (replicate (nat n) 0, 1) = Inr st \<and> I n st"
  proof (rule for_range_rule)
    show "I 0 (replicate (nat n) 0, 1)" by (simp add: I_def)
    show "0 \<le> n" by (rule n)
  next
    fix k and st :: "'a list \<times> 'a"
    assume k: "0 \<le> k" "k < n" and inv: "I k st"
    obtain os tmp where st: "st = (os, tmp)" by (cases st)
    have len: "length os = nat n" and tmp: "tmp = om ^ nat k"
      and old: "\<forall>j < nat k. os ! j = om ^ j"
      using inv by (simp_all add: I_def st)
    have run: "omegaIs_body L w k st = Inr (os[nat k := tmp], tmp * om)"
      using k w len by (simp add: omegaIs_body_def st assign_ok elem_ok om_def)
    have nk: "nat (k + 1) = Suc (nat k)" using k by simp
    have "I (k + 1) (os[nat k := tmp], tmp * om)"
      unfolding I_def
    proof (intro conjI allI impI)
      show "length (fst (os[nat k := tmp], tmp * om)) = nat n" using len by simp
      show "snd (os[nat k := tmp], tmp * om) = om ^ nat (k + 1)" by (simp add: tmp nk)
    next
      fix j assume "j < nat (k + 1)"
      then have "j < nat k \<or> j = nat k" using nk by linarith
      moreover have "nat k < length os" using k len by linarith
      ultimately show "fst (os[nat k := tmp], tmp * om) ! j = om ^ j"
        using old tmp by auto
    qed
    with run show "\<exists>t'. omegaIs_body L w k st = Inr t' \<and> I (k + 1) t'" by blast
  qed
  then show ?thesis by (auto simp: I_def om_def)
qed

lemma inverses_loop:
  fixes L :: "('a::field, 'g) bls"
  assumes n: "1 \<le> n" and los: "length os = nat n" and linv: "length invs = nat n"
  shows "\<exists>r. for_range 1 n (inverses_body L os) invs = Inr r
           \<and> length r = nat n \<and> r ! 0 = invs ! 0
           \<and> (\<forall>k. 1 \<le> k \<and> k < nat n \<longrightarrow> r ! k = DivModFr L 1 (1 - os ! k))"
proof -
  define I where "I = (\<lambda>k (t :: 'a list). length t = nat n \<and> t ! 0 = invs ! 0
      \<and> (\<forall>j. 1 \<le> j \<and> j < nat k \<longrightarrow> t ! j = DivModFr L 1 (1 - os ! j)))"
  have "\<exists>t. for_range 1 n (inverses_body L os) invs = Inr t \<and> I n t"
  proof (rule for_range_rule)
    show "I 1 invs" by (simp add: I_def linv)
    show "1 \<le> n" by (rule n)
  next
    fix k and t :: "'a list"
    assume k: "1 \<le> k" "k < n" and inv: "I k t"
    have len: "length t = nat n" and zero: "t ! 0 = invs ! 0"
      and old: "\<forall>j. 1 \<le> j \<and> j < nat k \<longrightarrow> t ! j = DivModFr L 1 (1 - os ! j)"
      using inv by (simp_all add: I_def)
    have run: "inverses_body L os k t = Inr (t[nat k := DivModFr L 1 (1 - os ! nat k)])"
      using k los len by (simp add: inverses_body_def assign_ok elem_ok)
    have nk: "nat (k + 1) = Suc (nat k)" using k by simp
    have kpos: "0 < nat k" "nat k < length t" using k len by linarith+
    have "I (k + 1) (t[nat k := DivModFr L 1 (1 - os ! nat k)])"
      unfolding I_def
    proof (intro conjI allI impI)
      show "length (t[nat k := DivModFr L 1 (1 - os ! nat k)]) = nat n" using len by simp
      show "t[nat k := DivModFr L 1 (1 - os ! nat k)] ! 0 = invs ! 0"
        using kpos zero by simp
    next
      fix j assume "1 \<le> j \<and> j < nat (k + 1)"
      then have "(1 \<le> j \<and> j < nat k) \<or> j = nat k" using nk by linarith
      then show "t[nat k := DivModFr L 1 (1 - os ! nat k)] ! j = DivModFr L 1 (1 - os ! j)"
        using old kpos by auto
    qed
    with run show "\<exists>t'. inverses_body L os k t = Inr t' \<and> I (k + 1) t'" by blast
  qed
  then show ?thesis by (auto simp: I_def)
qed

lemma initTreeConfig_returns:
  fixes L :: "('a::field, 'g) bls"
  assumes w: "0 \<le> w" "w < 63" "nat w < length (Scale2RootOfUnity L)"
  shows "\<exists>tc. initTreeConfig L thr10 w points = Inr tc
           \<and> width tc = w \<and> nodeWidth tc = 2 ^ nat w
           \<and> length (omegaIs tc) = 2 ^ nat w \<and> length (inverses tc) = 2 ^ nat w
           \<and> (\<forall>k < 2 ^ nat w. omegaIs tc ! k = (Scale2RootOfUnity L ! nat w) ^ k)
           \<and> inverses tc ! 0 = 0
           \<and> (\<forall>k. 1 \<le> k \<and> k < 2 ^ nat w \<longrightarrow>
                 inverses tc ! k = DivModFr L 1 (1 - (Scale2RootOfUnity L ! nat w) ^ k))
           \<and> lg1 tc = points
           \<and> multiExpThreshold tc = (if w = 10 then thr10 else multiExpThreshold8)"
proof -
  define n :: int where "n = 2 ^ nat w"
  have npos: "1 \<le> n" by (simp add: n_def)
  have nn: "nat n = 2 ^ nat w" by (simp add: n_def)
  have sh: "shl1 w = Inr n" using w by (simp add: shl1_small n_def)
  obtain os tmp where os:
    "for_range 0 n (omegaIs_body L w) (replicate (nat n) 0, 1) = Inr (os, tmp)"
    "length os = nat n"
    "\<forall>k < nat n. os ! k = (Scale2RootOfUnity L ! nat w) ^ k"
    using omegaIs_loop [OF w(1) w(3), of n] npos by auto
  have a0: "assign (replicate (nat n) (0::'a)) 0 0 = Inr (replicate (nat n) 0)"
  proof -
    have "(replicate (nat n) (0::'a))[0 := 0] = replicate (nat n) 0"
      by (rule nth_equalityI) (simp_all add: nth_list_update)
    then show ?thesis using npos by (simp add: assign_def)
  qed
  obtain r where r:
    "for_range 1 n (inverses_body L os) (replicate (nat n) 0) = Inr r"
    "length r = nat n" "r ! 0 = replicate (nat n) (0::'a) ! 0"
    "\<forall>k. 1 \<le> k \<and> k < nat n \<longrightarrow> r ! k = DivModFr L 1 (1 - os ! k)"
    using inverses_loop [OF npos os(2), of "replicate (nat n) 0" L] by auto
  have r0: "r ! 0 = 0" using r(3) npos by simp
  have "initTreeConfig L thr10 w points =
      Inr \<lparr>width = w, nodeWidth = n,
          modulus = 52435875175126190479447740508185965837690552500527637822603658699938581184513,
          omegaIs = os, inverses = r, nodeWidthInversed = InvModFr L (of_int n),
          lg1 = points,
          multiExpThreshold = (if w = 10 then thr10 else multiExpThreshold8)\<rparr>"
    using npos by (simp add: initTreeConfig_def sh make_slice_ok os(1) a0 r(1))
  moreover have "length os = 2 ^ nat w" "length r = 2 ^ nat w"
    using os(2) r(2) nn by simp_all
  moreover have "\<forall>k < 2 ^ nat w. os ! k = (Scale2RootOfUnity L ! nat w) ^ k"
    using os(3) nn by simp
  moreover have "\<forall>k. 1 \<le> k \<and> k < 2 ^ nat w \<longrightarrow>
      r ! k = DivModFr L 1 (1 - (Scale2RootOfUnity L ! nat w) ^ k)"
    using os(3) r(4) nn by simp
  ultimately show ?thesis
    using r0 by (simp add: n_def)
qed

lemma initTreeConfig_Inr:
  fixes L :: "('a::field, 'g) bls"
  assumes ok: "initTreeConfig L thr10 w points = Inr tc"
  shows "0 \<le> w \<and> w < 63 \<and> nat w < length (Scale2RootOfUnity L)"
proof -
  from ok obtain nw os0 invs0 st invs1 where
    sh: "shl1 w = Inr nw" and m1: "make_slice (0::'a) nw = Inr os0"
    and m2: "make_slice (0::'a) nw = Inr invs0"
    and lp: "for_range 0 nw (omegaIs_body L w) (os0, 1) = Inr st"
    and a0: "assign invs0 0 0 = Inr invs1"
    by (auto simp: initTreeConfig_def bind_eq_Inr Let_def)
  have "0 < length invs0" using a0 by (auto simp: assign_def split: if_splits)
  then have pos: "0 < nw" using make_slice_eq_Inr [OF m2] by auto
  from shl1_eq_Inr [OF sh pos] have w: "0 \<le> w" "w < 63" by simp_all
  from lp pos obtain st' where "omegaIs_body L w 0 (os0, 1) = Inr st'"
    by (subst (asm) for_range.simps) (auto split: sum.splits)
  then obtain r where "elem (Scale2RootOfUnity L) w = Inr r"
    by (auto simp: omegaIs_body_def bind_eq_Inr)
  then have "w < int (length (Scale2RootOfUnity L))"
    by (auto simp: elem_def split: if_splits)
  with w show ?thesis by simp
qed

text \<open>
  For the widths 8 and 10, and a table \<open>Scale2RootOfUnity\<close> that has an entry for the
  width, \<open>initTreeConfig\<close> returns a configuration, whose tables are as follows.
\<close>

lemma initTreeConfig_tables:
  fixes L :: "('a::field, 'g) bls"
  assumes "w = 8 \<or> w = 10" and "nat w < length (Scale2RootOfUnity L)"
  shows "\<exists>tc. initTreeConfig L thr10 w points = Inr tc
           \<and> length (omegaIs tc) = 2 ^ nat w \<and> length (inverses tc) = 2 ^ nat w
           \<and> (\<forall>i < 2 ^ nat w. omegaIs tc ! i = (Scale2RootOfUnity L ! nat w) ^ i)
           \<and> omegaIs tc ! 0 = 1
           \<and> inverses tc ! 0 = 0
           \<and> (\<forall>i. 1 \<le> i \<and> i < 2 ^ nat w \<and> (Scale2RootOfUnity L ! nat w) ^ i \<noteq> 1 \<longrightarrow>
                 inverses tc ! i = 1 / (1 - (Scale2RootOfUnity L ! nat w) ^ i))"
proof -
  have "0 \<le> w" "w < 63" using assms(1) by auto
  from initTreeConfig_returns [OF this assms(2), of thr10 points] obtain tc where
    tc: "initTreeConfig L thr10 w points = Inr tc"
    "length (omegaIs tc) = 2 ^ nat w" "length (inverses tc) = 2 ^ nat w"
    "\<forall>k < 2 ^ nat w. omegaIs tc ! k = (Scale2RootOfUnity L ! nat w) ^ k"
    "inverses tc ! 0 = 0"
    "\<forall>k. 1 \<le> k \<and> k < 2 ^ nat w \<longrightarrow>
        inverses tc ! k = DivModFr L 1 (1 - (Scale2RootOfUnity L ! nat w) ^ k)"
    by blast
  have "omegaIs tc ! 0 = 1" using tc(4) by simp
  moreover have "\<forall>i. 1 \<le> i \<and> i < 2 ^ nat w \<and> (Scale2RootOfUnity L ! nat w) ^ i \<noteq> 1 \<longrightarrow>
      inverses tc ! i = 1 / (1 - (Scale2RootOfUnity L ! nat w) ^ i)"
    using tc(6) by (auto simp: DivModFr_def)
  ultimately show ?thesis using tc(1-5) by blast
qed

lemma initTreeConfig_facts:
  fixes L :: "('a::field, 'g) bls"
  assumes ok: "initTreeConfig L thr10 w points = Inr tc"
  shows "nodeWidth tc = 2 ^ nat w"
    and "length (omegaIs tc) = 2 ^ nat w"
    and "length (inverses tc) = 2 ^ nat w"
    and "\<forall>k < 2 ^ nat w. omegaIs tc ! k = (Scale2RootOfUnity L ! nat w) ^ k"
proof -
  from initTreeConfig_Inr [OF ok] have w: "0 \<le> w" "w < 63"
    "nat w < length (Scale2RootOfUnity L)" by simp_all
  from initTreeConfig_returns [OF w, of thr10 points] ok
  show "nodeWidth tc = 2 ^ nat w" "length (omegaIs tc) = 2 ^ nat w"
    "length (inverses tc) = 2 ^ nat w"
    "\<forall>k < 2 ^ nat w. omegaIs tc ! k = (Scale2RootOfUnity L ! nat w) ^ k"
    by auto
qed

lemma GetTreeConfig_body_loop:
  fixes L :: "('a::field, 'g) bls" and K :: "('a, 'g, 'h) kzg"
  assumes n: "0 \<le> n" and l1: "length a = nat n" and l2: "length b = nat n"
  shows "\<exists>a' b' sPow. for_range 0 n (GetTreeConfig_body L K s) (a, b, 1) = Inr (a', b', sPow)
           \<and> length a' = nat n"
proof -
  define I where "I = (\<lambda>(k::int) (st :: 'g list \<times> 'h list \<times> 'a).
      length (fst st) = nat n \<and> length (fst (snd st)) = nat n)"
  have "\<exists>st. for_range 0 n (GetTreeConfig_body L K s) (a, b, 1) = Inr st \<and> I n st"
  proof (rule for_range_rule)
    show "I 0 (a, b, 1)" by (simp add: I_def l1 l2)
    show "0 \<le> n" by (rule n)
  next
    fix k and st :: "'g list \<times> 'h list \<times> 'a"
    assume k: "0 \<le> k" "k < n" and inv: "I k st"
    obtain x y z where st: "st = (x, y, z)" by (cases st)
    have len: "length x = nat n" "length y = nat n" using inv by (simp_all add: I_def st)
    have "GetTreeConfig_body L K s k st
        = Inr (x[nat k := MulG1 L (GenG1 K) z], y[nat k := MulG2 K (GenG2 K) z], z * s)"
      using k len by (simp add: GetTreeConfig_body_def st assign_ok)
    moreover have "I (k + 1)
        (x[nat k := MulG1 L (GenG1 K) z], y[nat k := MulG2 K (GenG2 K) z], z * s)"
      using len by (simp add: I_def)
    ultimately show "\<exists>t'. GetTreeConfig_body L K s k st = Inr t' \<and> I (k + 1) t'" by blast
  qed
  then show ?thesis by (auto simp: I_def)
qed

lemma GetTreeConfig_Inr:
  fixes L :: "('a::field, 'g::zero) bls" and K :: "('a, 'g, 'h::zero) kzg"
  assumes "GetTreeConfig L K thr10 configs w = Inr (tc, configs')"
  shows "(configs w = Some tc \<and> configs' = configs)
       \<or> (configs w = None \<and> configs' = configs(w \<mapsto> tc)
          \<and> (\<exists>points. initTreeConfig L thr10 w points = Inr tc))"
proof (cases "configs w")
  case None
  with assms show ?thesis
    by (auto simp: GetTreeConfig_def bind_eq_Inr split: option.splits)
next
  case (Some cfg)
  with assms show ?thesis by (simp add: GetTreeConfig_def)
qed

lemma cache_state_built:
  fixes L :: "('a::field, 'g::zero) bls" and K :: "('a, 'g, 'h::zero) kzg"
  assumes "cache_state L K thr10 configs" and "configs w = Some tc"
  shows "\<exists>points. initTreeConfig L thr10 w points = Inr tc"
  using assms
proof (induction arbitrary: w tc)
  case init
  then show ?case by simp
next
  case (call configs w0 tc0 configs')
  from GetTreeConfig_Inr [OF call.hyps(2)] show ?case
  proof
    assume "configs w0 = Some tc0 \<and> configs' = configs"
    then show ?thesis using call.IH call.prems by simp
  next
    assume new: "configs w0 = None \<and> configs' = configs(w0 \<mapsto> tc0)
      \<and> (\<exists>points. initTreeConfig L thr10 w0 points = Inr tc0)"
    show ?thesis
    proof (cases "w = w0")
      case True
      then have "tc = tc0" using new call.prems by simp
      then show ?thesis using new True by blast
    next
      case False
      then have "configs w = Some tc" using new call.prems by simp
      then show ?thesis by (rule call.IH)
    qed
  qed
qed

lemma GetTreeConfig_miss:
  fixes L :: "('a::field, 'g::zero) bls" and K :: "('a, 'g, 'h::zero) kzg"
  assumes w: "0 \<le> w" "w < 63" and miss: "configs w = None"
    and fft: "\<forall>vals. length vals = 2 ^ nat w \<longrightarrow> FFTG1 K (word_of_int w) vals \<noteq> None"
  shows "\<exists>points. GetTreeConfig L K thr10 configs w =
           bind (initTreeConfig L thr10 w points) (\<lambda>tc. Inr (tc, configs(w \<mapsto> tc)))"
proof -
  define n :: int where "n = 2 ^ nat w"
  have sh: "shl1 w = Inr n" using w by (simp add: shl1_small n_def)
  have npos: "0 \<le> n" by (simp add: n_def)
  obtain a b sPow where lp:
    "for_range 0 n (GetTreeConfig_body L K 1927409816240961209460912649124)
       (replicate (nat n) (0::'g), replicate (nat n) (0::'h), 1) = Inr (a, b, sPow)"
    "length a = nat n"
    using GetTreeConfig_body_loop [OF npos, of "replicate (nat n) 0" "replicate (nat n) 0"
        L K 1927409816240961209460912649124]
    by auto
  have "length a = 2 ^ nat w" using lp(2) by (simp add: n_def)
  then obtain points where pts: "FFTG1 K (word_of_int w) a = Some points"
    using fft by auto
  have "GetTreeConfig L K thr10 configs w =
      bind (initTreeConfig L thr10 w points) (\<lambda>tc. Inr (tc, configs(w \<mapsto> tc)))"
    using npos by (simp add: GetTreeConfig_def miss sh make_slice_ok lp(1) pts)
  then show ?thesis by blast
qed

text \<open>
  C8. For the supported widths 8 and 10, in every state of the cache, with a table
  \<open>Scale2RootOfUnity\<close> that has an entry for the width and an FFT that does not fail,
  \<open>GetTreeConfig\<close> returns a configuration (the cached one, or the one
  \<open>initTreeConfig\<close> builds): it has exactly \<open>2 ^ w\<close> roots of unity, the powers of
  \<open>\<omega> = Scale2RootOfUnity[w]\<close>, and exactly \<open>2 ^ w\<close> inverses; the first root is the
  multiplicative identity, the first inverse the additive identity, and
  \<open>inverses[i] = 1 / (1 - \<omega>\<^sup>i)\<close> for every \<open>i\<close> in \<open>[1, 2 ^ w)\<close> with \<open>\<omega>\<^sup>i \<noteq> 1\<close>, which
  is every such \<open>i\<close> when \<open>\<omega>\<close> is a primitive root.
\<close>

theorem GetTreeConfig_tables:
  fixes L :: "('a::field, 'g::zero) bls" and K :: "('a, 'g, 'h::zero) kzg"
  assumes sup: "w = 8 \<or> w = 10"
    and st: "cache_state L K thr10 configs"
    and tab: "nat w < length (Scale2RootOfUnity L)"
    and fft: "\<forall>vals. length vals = 2 ^ nat w \<longrightarrow> FFTG1 K (word_of_int w) vals \<noteq> None"
  shows "\<exists>tc configs'. GetTreeConfig L K thr10 configs w = Inr (tc, configs')
           \<and> length (omegaIs tc) = 2 ^ nat w \<and> length (inverses tc) = 2 ^ nat w
           \<and> (\<forall>i < 2 ^ nat w. omegaIs tc ! i = (Scale2RootOfUnity L ! nat w) ^ i)
           \<and> omegaIs tc ! 0 = 1
           \<and> inverses tc ! 0 = 0
           \<and> (\<forall>i. 1 \<le> i \<and> i < 2 ^ nat w \<and> (Scale2RootOfUnity L ! nat w) ^ i \<noteq> 1 \<longrightarrow>
                 inverses tc ! i = 1 / (1 - (Scale2RootOfUnity L ! nat w) ^ i))"
proof -
  have w: "0 \<le> w" "w < 63" using sup by auto
  have "\<exists>tc configs' points. GetTreeConfig L K thr10 configs w = Inr (tc, configs')
      \<and> initTreeConfig L thr10 w points = Inr tc"
  proof (cases "configs w")
    case None
    from GetTreeConfig_miss [of w configs K L thr10] w None fft obtain points where
      run: "GetTreeConfig L K thr10 configs w =
        bind (initTreeConfig L thr10 w points) (\<lambda>tc. Inr (tc, configs(w \<mapsto> tc)))"
      by blast
    from initTreeConfig_tables [OF sup tab, of thr10 points] obtain tc where
      "initTreeConfig L thr10 w points = Inr tc" by blast
    with run show ?thesis by auto
  next
    case (Some tc)
    then have "GetTreeConfig L K thr10 configs w = Inr (tc, configs)"
      by (simp add: GetTreeConfig_def)
    with cache_state_built [OF st Some] show ?thesis by blast
  qed
  then obtain tc configs' points where
    run: "GetTreeConfig L K thr10 configs w = Inr (tc, configs')"
    and built: "initTreeConfig L thr10 w points = Inr tc"
    by blast
  from initTreeConfig_tables [OF sup tab, of thr10 points] built
  have "length (omegaIs tc) = 2 ^ nat w \<and> length (inverses tc) = 2 ^ nat w
      \<and> (\<forall>i < 2 ^ nat w. omegaIs tc ! i = (Scale2RootOfUnity L ! nat w) ^ i)
      \<and> omegaIs tc ! 0 = 1
      \<and> inverses tc ! 0 = 0
      \<and> (\<forall>i. 1 \<le> i \<and> i < 2 ^ nat w \<and> (Scale2RootOfUnity L ! nat w) ^ i \<noteq> 1 \<longrightarrow>
            inverses tc ! i = 1 / (1 - (Scale2RootOfUnity L ! nat w) ^ i))"
    by auto
  with run show ?thesis by blast
qed

theorem GetTreeConfig_tables_witness:
  "((8::int) = 8 \<or> (8::int) = 10)
   \<and> cache_state bls_rat kzg_rat 30 Map.empty
   \<and> nat 8 < length (Scale2RootOfUnity bls_rat)
   \<and> (\<forall>vals :: rat list. FFTG1 kzg_rat (word_of_int 8) vals \<noteq> None)
   \<and> (\<exists>tc configs'. GetTreeConfig bls_rat kzg_rat 30 Map.empty 8 = Inr (tc, configs')
          \<and> length (omegaIs tc) = 256 \<and> length (inverses tc) = 256
          \<and> omegaIs tc ! 0 = 1 \<and> omegaIs tc ! 1 = - 1
          \<and> inverses tc ! 0 = 0 \<and> inverses tc ! 1 = 1 / 2)"
proof -
  have st: "cache_state bls_rat kzg_rat 30 Map.empty" by (rule cache_state.init)
  have tab: "nat 8 < length (Scale2RootOfUnity bls_rat)" by (simp add: bls_rat_def)
  have fft: "\<forall>vals :: rat list. FFTG1 kzg_rat (word_of_int 8) vals \<noteq> None"
    by (simp add: kzg_rat_def)
  have om: "Scale2RootOfUnity bls_rat ! 8 = - 1" by (simp add: bls_rat_def)
  from GetTreeConfig_tables [of 8 bls_rat kzg_rat 30 Map.empty, OF _ st tab] fft
  obtain tc configs' where
    tc: "GetTreeConfig bls_rat kzg_rat 30 Map.empty 8 = Inr (tc, configs')"
    "length (omegaIs tc) = 2 ^ nat 8" "length (inverses tc) = 2 ^ nat 8"
    "\<forall>i < 2 ^ nat 8. omegaIs tc ! i = (Scale2RootOfUnity bls_rat ! nat 8) ^ i"
    "omegaIs tc ! 0 = 1" "inverses tc ! 0 = 0"
    "\<forall>i. 1 \<le> i \<and> i < 2 ^ nat 8 \<and> (Scale2RootOfUnity bls_rat ! nat 8) ^ i \<noteq> 1 \<longrightarrow>
        inverses tc ! i = 1 / (1 - (Scale2RootOfUnity bls_rat ! nat 8) ^ i)"
    by auto
  have "omegaIs tc ! 1 = (- 1) ^ 1" using tc(4) [rule_format, of 1] by (simp add: om)
  then have o1: "omegaIs tc ! 1 = - 1" by simp
  have "inverses tc ! 1 = 1 / (1 - (- 1) ^ 1)"
    using tc(7) [rule_format, of 1] by (simp add: om)
  then have i1: "inverses tc ! 1 = 1 / 2" by simp
  have "\<exists>tc configs'. GetTreeConfig bls_rat kzg_rat 30 Map.empty 8 = Inr (tc, configs')
          \<and> length (omegaIs tc) = 256 \<and> length (inverses tc) = 256
          \<and> omegaIs tc ! 0 = 1 \<and> omegaIs tc ! 1 = - 1
          \<and> inverses tc ! 0 = 0 \<and> inverses tc ! 1 = 1 / 2"
    using tc(1,2,3,5,6) o1 i1 by auto
  with st tab fft show ?thesis by simp
qed

section \<open>Properties of the quotients\<close>

lemma outerQuotients_loop:
  fixes L :: "('a::field, 'g) bls"
  assumes n: "0 \<le> nodeWidth tc" "nat (nodeWidth tc) \<le> length f"
    "nat (nodeWidth tc) \<le> length (omegaIs tc)" and lq: "length q0 = nat (nodeWidth tc)"
  shows "\<exists>q. for_range 0 (nodeWidth tc) (outerQuotients_body L tc f z y) q0 = Inr q
           \<and> length q = nat (nodeWidth tc)
           \<and> (\<forall>i < nat (nodeWidth tc). q ! i = DivModFr L (f ! i - y) (omegaIs tc ! i - z))"
proof -
  define I where "I = (\<lambda>k (t :: 'a list). length t = nat (nodeWidth tc)
      \<and> (\<forall>j < nat k. t ! j = DivModFr L (f ! j - y) (omegaIs tc ! j - z)))"
  have "\<exists>t. for_range 0 (nodeWidth tc) (outerQuotients_body L tc f z y) q0 = Inr t
          \<and> I (nodeWidth tc) t"
  proof (rule for_range_rule)
    show "I 0 q0" by (simp add: I_def lq)
    show "0 \<le> nodeWidth tc" by (rule n)
  next
    fix k and t :: "'a list"
    assume k: "0 \<le> k" "k < nodeWidth tc" and inv: "I k t"
    have len: "length t = nat (nodeWidth tc)"
      and old: "\<forall>j < nat k. t ! j = DivModFr L (f ! j - y) (omegaIs tc ! j - z)"
      using inv by (simp_all add: I_def)
    have run: "outerQuotients_body L tc f z y k t
        = Inr (t[nat k := DivModFr L (f ! nat k - y) (omegaIs tc ! nat k - z)])"
      using k n len by (simp add: outerQuotients_body_def elem_ok assign_ok)
    have nk: "nat (k + 1) = Suc (nat k)" using k by simp
    have kl: "nat k < length t" using k len by linarith
    have "I (k + 1) (t[nat k := DivModFr L (f ! nat k - y) (omegaIs tc ! nat k - z)])"
      unfolding I_def
    proof (intro conjI allI impI)
      show "length (t[nat k := DivModFr L (f ! nat k - y) (omegaIs tc ! nat k - z)])
          = nat (nodeWidth tc)" using len by simp
    next
      fix j assume "j < nat (k + 1)"
      then have "j < nat k \<or> j = nat k" using nk by linarith
      then show "t[nat k := DivModFr L (f ! nat k - y) (omegaIs tc ! nat k - z)] ! j
          = DivModFr L (f ! j - y) (omegaIs tc ! j - z)"
        using old kl by auto
    qed
    with run show "\<exists>t'. outerQuotients_body L tc f z y k t = Inr t' \<and> I (k + 1) t'"
      by blast
  qed
  then show ?thesis by (auto simp: I_def)
qed

text \<open>
  C7. For a configuration built by \<open>initTreeConfig\<close>, a vector \<open>f\<close> of \<open>nodeWidth\<close>
  evaluations and a point \<open>z\<close> that is none of the domain points \<open>\<omega>\<^sup>i\<close>,
  \<open>outerQuotients\<close> returns a vector \<open>q\<close> of \<open>nodeWidth\<close> entries with
  \<open>q[i] = (f[i] - y) / (\<omega>\<^sup>i - z)\<close> for every \<open>i\<close>: each entry is one division, and no
  entry depends on another.
\<close>

theorem outerQuotients_formula:
  fixes L :: "('a::field, 'g) bls"
  assumes cfg: "initTreeConfig L thr10 w points = Inr tc"
    and len: "int (length f) = nodeWidth tc"
    and out: "\<forall>i < length f. (Scale2RootOfUnity L ! nat w) ^ i \<noteq> z"
  shows "\<exists>q. outerQuotients L tc f z y = Inr q \<and> length q = length f
           \<and> (\<forall>i < length f. q ! i = (f ! i - y) / ((Scale2RootOfUnity L ! nat w) ^ i - z))"
proof -
  note facts = initTreeConfig_facts [OF cfg]
  have nw: "nat (nodeWidth tc) = length f" using len by simp
  have lf: "length f = 2 ^ nat w" using len facts(1) by (simp flip: nw)
  obtain q where q:
    "for_range 0 (nodeWidth tc) (outerQuotients_body L tc f z y)
       (replicate (nat (nodeWidth tc)) 0) = Inr q"
    "length q = nat (nodeWidth tc)"
    "\<forall>i < nat (nodeWidth tc). q ! i = DivModFr L (f ! i - y) (omegaIs tc ! i - z)"
    using outerQuotients_loop [of tc f "replicate (nat (nodeWidth tc)) 0" L z y]
      facts(1,2) nw by auto
  have run: "outerQuotients L tc f z y = Inr q"
    using q(1) facts(1) by (simp add: outerQuotients_def make_slice_ok)
  have "q ! i = (f ! i - y) / ((Scale2RootOfUnity L ! nat w) ^ i - z)"
    if i: "i < length f" for i
  proof -
    have om: "omegaIs tc ! i = (Scale2RootOfUnity L ! nat w) ^ i"
      using facts(4) i lf by simp
    have "(Scale2RootOfUnity L ! nat w) ^ i - z \<noteq> 0" using out i by simp
    then show ?thesis using q(3) i nw by (simp add: om DivModFr_def)
  qed
  with run q(2) nw show ?thesis by simp
qed

theorem outerQuotients_formula_witness:
  "initTreeConfig bls_rat 30 1 ([]::rat list) =
     Inr \<lparr>width = 1, nodeWidth = 2,
          modulus = 52435875175126190479447740508185965837690552500527637822603658699938581184513,
          omegaIs = [1, - 1], inverses = [0, 1 / 2], nodeWidthInversed = 1 / 2,
          lg1 = [], multiExpThreshold = 25\<rparr>
   \<and> (Scale2RootOfUnity bls_rat ! nat 1) ^ 0 \<noteq> 2
   \<and> (Scale2RootOfUnity bls_rat ! nat 1) ^ 1 \<noteq> 2
   \<and> outerQuotients bls_rat
        \<lparr>width = 1, nodeWidth = 2,
         modulus = 52435875175126190479447740508185965837690552500527637822603658699938581184513,
         omegaIs = [1, - 1], inverses = [0, 1 / 2], nodeWidthInversed = 1 / 2,
         lg1 = ([]::rat list), multiExpThreshold = 25\<rparr> [3, 5] 2 7 = Inr [4, 2 / 3]"
proof -
  let ?tc = "\<lparr>width = 1, nodeWidth = 2,
          modulus = 52435875175126190479447740508185965837690552500527637822603658699938581184513,
          omegaIs = [1, - 1], inverses = [0, 1 / 2], nodeWidthInversed = 1 / 2,
          lg1 = ([]::rat list), multiExpThreshold = 25\<rparr>"
  have cfg: "initTreeConfig bls_rat 30 1 ([]::rat list) = Inr ?tc" by code_simp
  have om: "Scale2RootOfUnity bls_rat ! nat 1 = - 1"
    and om1: "Scale2RootOfUnity bls_rat ! Suc 0 = - 1" by (simp_all add: bls_rat_def)
  have len: "int (length [3, 5 :: rat]) = nodeWidth ?tc" by simp
  have out: "\<forall>i < length [3, 5 :: rat]. (Scale2RootOfUnity bls_rat ! nat 1) ^ i \<noteq> 2"
    by (simp add: om1 less_Suc_eq)
  from outerQuotients_formula [OF cfg len out, of 7] obtain q where
    q: "outerQuotients bls_rat ?tc [3, 5] 2 7 = Inr q" "length q = 2"
    "\<forall>i < 2. q ! i = ([3, 5] ! i - 7) / ((- 1) ^ i - 2)"
    by (auto simp: om1)
  from q(2) obtain a b where ab: "q = [a, b]"
    by (auto simp: length_Suc_conv numeral_2_eq_2)
  have "a = 4" using q(3) [rule_format, of 0] by (simp add: ab)
  moreover have "b = 2 / 3" using q(3) [rule_format, of 1] by (simp add: ab)
  ultimately have "q = [4, 2 / 3]" by (simp add: ab)
  with q(1) cfg om1 show ?thesis by simp
qed

lemma innerQuotients_body_step:
  fixes tc :: "('a::field, 'g) TreeConfig"
  assumes N: "0 < nodeWidth tc"
    and lom: "length (omegaIs tc) = nat (nodeWidth tc)"
    and linv: "length (inverses tc) = nat (nodeWidth tc)"
    and lf: "length f = nat (nodeWidth tc)"
    and lq: "length q = nat (nodeWidth tc)"
    and idx: "0 \<le> index" "index < nodeWidth tc"
    and k: "0 \<le> k" "k < nodeWidth tc" "k \<noteq> index"
  shows "innerQuotients_body tc f index y k q =
     Inr ((q[nat k := (f ! nat k - y)
                * omegaIs tc ! nat ((nodeWidth tc - k) mod nodeWidth tc)
                * inverses tc ! nat ((index + nodeWidth tc - k) mod nodeWidth tc)])
            [nat index := q ! nat index
                + (0 - omegaIs tc ! nat ((k - index + nodeWidth tc) mod nodeWidth tc)
                     * ((f ! nat k - y)
                        * omegaIs tc ! nat ((nodeWidth tc - k) mod nodeWidth tc)
                        * inverses tc ! nat ((index + nodeWidth tc - k) mod nodeWidth tc)))])"
proof -
  let ?N = "nodeWidth tc"
  have lo: "int (length (omegaIs tc)) = ?N" using lom N by simp
  have r1: "rem (int (length (omegaIs tc)) - k) (int (length (omegaIs tc)))
      = Inr ((?N - k) mod ?N)"
    using k N by (simp add: lo rem_nonneg)
  have r2: "rem (index + ?N - k) ?N = Inr ((index + ?N - k) mod ?N)"
    using k idx N by (simp add: rem_nonneg)
  have r3: "rem (k - index + ?N) ?N = Inr ((k - index + ?N) mod ?N)"
    using k idx N by (simp add: rem_nonneg)
  have b: "0 \<le> a mod ?N" "a mod ?N < ?N" for a using N by simp_all
  have e1: "elem f k = Inr (f ! nat k)" using k lf by (simp add: elem_ok)
  have e2: "elem (omegaIs tc) (a mod ?N) = Inr (omegaIs tc ! nat (a mod ?N))" for a
    using b [of a] lo by (simp add: elem_ok)
  have e3: "elem (inverses tc) (a mod ?N) = Inr (inverses tc ! nat (a mod ?N))" for a
    using b [of a] linv N by (simp add: elem_ok)
  have a1: "assign q k v = Inr (q[nat k := v])" for v
    using k lq by (simp add: assign_ok)
  have e4: "elem (q[nat k := v]) k = Inr v" for v
    using k lq by (simp add: elem_ok)
  have ne: "nat index \<noteq> nat k" using k idx by simp
  have e5: "elem (q[nat k := v]) index = Inr (q ! nat index)" for v
    using idx lq ne by (simp add: elem_ok)
  have a2: "assign (q[nat k := v]) index u = Inr ((q[nat k := v])[nat index := u])" for v u
    using idx lq by (simp add: assign_ok)
  show ?thesis
    using k(3) by (simp add: innerQuotients_body_def r1 r2 r3 e1 e2 e3 a1 e4 e5 a2)
qed

lemma innerQuotients_loop:
  fixes tc :: "('a::field, 'g) TreeConfig" and y :: 'a
  assumes N: "0 < nodeWidth tc"
    and lom: "length (omegaIs tc) = nat (nodeWidth tc)"
    and linv: "length (inverses tc) = nat (nodeWidth tc)"
    and lf: "length f = nat (nodeWidth tc)"
    and idx: "0 \<le> index" "index < nodeWidth tc"
  defines "F \<equiv> \<lambda>j. (f ! j - y)
      * omegaIs tc ! nat ((nodeWidth tc - int j) mod nodeWidth tc)
      * inverses tc ! nat ((index + nodeWidth tc - int j) mod nodeWidth tc)"
    and "W \<equiv> \<lambda>j. omegaIs tc ! nat ((int j - index + nodeWidth tc) mod nodeWidth tc)"
  shows "\<exists>q. for_range 0 (nodeWidth tc) (innerQuotients_body tc f index y)
                (replicate (nat (nodeWidth tc)) 0) = Inr q
           \<and> length q = nat (nodeWidth tc)
           \<and> (\<forall>j < nat (nodeWidth tc). j \<noteq> nat index \<longrightarrow> q ! j = F j)
           \<and> q ! nat index = - (\<Sum>j \<in> {j. j < nat (nodeWidth tc) \<and> j \<noteq> nat index}. W j * F j)"
proof -
  let ?N = "nodeWidth tc"
  define I where "I = (\<lambda>k (t :: 'a list). length t = nat ?N
      \<and> (\<forall>j < nat ?N. j \<noteq> nat index \<longrightarrow> t ! j = (if j < nat k then F j else 0))
      \<and> t ! nat index = - (\<Sum>j \<in> {j. j < nat k \<and> j \<noteq> nat index}. W j * F j))"
  have ni: "nat index < nat ?N" using idx by linarith
  have "\<exists>t. for_range 0 ?N (innerQuotients_body tc f index y) (replicate (nat ?N) 0) = Inr t
          \<and> I ?N t"
  proof (rule for_range_rule)
    show "I 0 (replicate (nat ?N) 0)" using ni by (simp add: I_def)
    show "0 \<le> ?N" using N by simp
  next
    fix k and t :: "'a list"
    assume k: "0 \<le> k" "k < ?N" and inv: "I k t"
    have len: "length t = nat ?N"
      and old: "\<forall>j < nat ?N. j \<noteq> nat index \<longrightarrow> t ! j = (if j < nat k then F j else 0)"
      and acc: "t ! nat index = - (\<Sum>j \<in> {j. j < nat k \<and> j \<noteq> nat index}. W j * F j)"
      using inv by (simp_all add: I_def)
    have nk: "nat (k + 1) = Suc (nat k)" using k by simp
    have kn: "nat k < nat ?N" using k by linarith
    show "\<exists>t'. innerQuotients_body tc f index y k t = Inr t' \<and> I (k + 1) t'"
    proof (cases "k = index")
      case True
      have run: "innerQuotients_body tc f index y k t = Inr t"
        using True by (simp add: innerQuotients_body_def)
      have same: "{j. j < nat (k + 1) \<and> j \<noteq> nat index} = {j. j < nat k \<and> j \<noteq> nat index}"
        using True nk by auto
      have "I (k + 1) t"
        unfolding I_def
      proof (intro conjI allI impI)
        show "length t = nat ?N" by (rule len)
        show "t ! nat index = - (\<Sum>j \<in> {j. j < nat (k + 1) \<and> j \<noteq> nat index}. W j * F j)"
          using acc by (simp only: same)
      next
        fix j assume j: "j < nat ?N" "j \<noteq> nat index"
        then have "(j < nat (k + 1)) = (j < nat k)" using True nk by auto
        then show "t ! j = (if j < nat (k + 1) then F j else 0)" using old j by simp
      qed
      with run show ?thesis by blast
    next
      case False
      define v where "v = F (nat k)"
      define u where "u = t ! nat index + (0 - W (nat k) * v)"
      have run: "innerQuotients_body tc f index y k t
          = Inr ((t[nat k := v])[nat index := u])"
        using innerQuotients_body_step [OF N lom linv lf len idx k False, of y] k
        by (simp add: v_def u_def F_def W_def)
      have ne: "nat k \<noteq> nat index" using False k idx by simp
      have split: "{j. j < nat (k + 1) \<and> j \<noteq> nat index}
          = insert (nat k) {j. j < nat k \<and> j \<noteq> nat index}"
        using ne nk by auto
      have "I (k + 1) ((t[nat k := v])[nat index := u])"
        unfolding I_def
      proof (intro conjI allI impI)
        show "length ((t[nat k := v])[nat index := u]) = nat ?N" using len by simp
        have "(t[nat k := v])[nat index := u] ! nat index = u" using len ni by simp
        also have "u = - (\<Sum>j \<in> insert (nat k) {j. j < nat k \<and> j \<noteq> nat index}. W j * F j)"
          by (simp add: u_def acc v_def)
        finally show "(t[nat k := v])[nat index := u] ! nat index
            = - (\<Sum>j \<in> {j. j < nat (k + 1) \<and> j \<noteq> nat index}. W j * F j)"
          by (simp only: split)
      next
        fix j assume j: "j < nat ?N" "j \<noteq> nat index"
        show "(t[nat k := v])[nat index := u] ! j = (if j < nat (k + 1) then F j else 0)"
        proof (cases "j = nat k")
          case True
          then show ?thesis using j len kn by (simp add: v_def nk)
        next
          case False
          then have "(j < nat (k + 1)) = (j < nat k)" using nk by auto
          then show ?thesis using old j False by simp
        qed
      qed
      with run show ?thesis by blast
    qed
  qed
  then obtain t where t:
    "for_range 0 ?N (innerQuotients_body tc f index y) (replicate (nat ?N) 0) = Inr t"
    "I ?N t" by blast
  have "\<forall>j < nat ?N. j \<noteq> nat index \<longrightarrow> t ! j = F j" using t(2) by (simp add: I_def)
  with t show ?thesis by (auto simp: I_def)
qed

lemma root_power_diff:
  fixes om :: "'a::field"
  assumes "om ^ n = 1" and "i \<le> n"
  shows "om ^ (n - i) = inverse (om ^ i)"
proof -
  have "om ^ i * om ^ (n - i) = om ^ n"
    using assms(2) by (simp flip: power_add)
  then have "om ^ i * om ^ (n - i) = 1" using assms(1) by simp
  then show ?thesis by (rule inverse_unique [symmetric])
qed

lemma root_power_neg_mod:
  fixes om :: "'a::field"
  assumes root: "om ^ n = 1" and i: "i < n"
  shows "om ^ nat ((int n - int i) mod int n) = inverse (om ^ i)"
proof (cases "i = 0")
  case True
  then show ?thesis by simp
next
  case False
  have "int n - int i = int (n - i)" using i by simp
  moreover have "n - i < n" using False i by simp
  ultimately have "(int n - int i) mod int n = int (n - i)"
    by (simp only: mod_pos_pos_trivial of_nat_0_le_iff of_nat_less_iff)
  then have "om ^ nat ((int n - int i) mod int n) = om ^ (n - i)" by simp
  also have "\<dots> = inverse (om ^ i)"
    using root i by (intro root_power_diff) simp_all
  finally show ?thesis .
qed

lemma root_power_int_mod:
  fixes om :: "'a::field"
  assumes root: "om ^ n = 1" and i: "i < n" and x: "x < n"
  shows "om ^ nat ((int i - int x + int n) mod int n) = om powi (int i - int x)"
proof (cases "x \<le> i")
  case True
  have "int i - int x + int n = int (i - x) + 1 * int n" using True by simp
  then have "(int i - int x + int n) mod int n = int (i - x) mod int n"
    by (simp only: mod_mult_self1)
  moreover have "i - x < n" using i by simp
  ultimately have "(int i - int x + int n) mod int n = int (i - x)"
    by (simp only: mod_pos_pos_trivial of_nat_0_le_iff of_nat_less_iff)
  then have "om ^ nat ((int i - int x + int n) mod int n) = om ^ (i - x)" by simp
  also have "\<dots> = om powi (int i - int x)"
    using True by (simp add: power_int_def nat_diff_distrib')
  finally show ?thesis .
next
  case False
  then have lt: "i < x" by simp
  have "int i - int x + int n = int (n - (x - i))" using lt x by simp
  moreover have "n - (x - i) < n" using lt x by simp
  ultimately have "(int i - int x + int n) mod int n = int (n - (x - i))"
    by (simp only: mod_pos_pos_trivial of_nat_0_le_iff of_nat_less_iff)
  then have "om ^ nat ((int i - int x + int n) mod int n) = om ^ (n - (x - i))" by simp
  also have "\<dots> = inverse (om ^ (x - i))"
    using root x by (intro root_power_diff) simp_all
  also have "\<dots> = om powi (int i - int x)"
    using lt by (simp add: power_int_def power_inverse nat_diff_distrib')
  finally show ?thesis .
qed

text \<open>
  C4. For a configuration built by \<open>initTreeConfig\<close> whose \<open>\<omega> = Scale2RootOfUnity[w]\<close>
  is a root of unity of order \<open>nodeWidth\<close>, a vector \<open>f\<close> of \<open>nodeWidth\<close> evaluations
  and an index in \<open>[0, nodeWidth)\<close>, \<open>innerQuotients\<close> returns a vector \<open>q\<close> with
  \<open>q[i] = (f[i] - f[index]) \<cdot> (1 / \<omega>\<^sup>i) \<cdot> inverses[(index - i) mod nodeWidth]\<close> for every
  \<open>i \<noteq> index\<close>, and \<open>q[index]\<close> is the additive identity minus the sum, over all
  \<open>i \<noteq> index\<close>, of \<open>\<omega>\<close> to the power \<open>i - index\<close> times \<open>q[i]\<close>.
\<close>

theorem innerQuotients_formula:
  fixes L :: "('a::field, 'g) bls"
  assumes cfg: "initTreeConfig L thr10 w points = Inr tc"
    and root: "(Scale2RootOfUnity L ! nat w) ^ (2 ^ nat w) = 1"
    and len: "int (length f) = nodeWidth tc"
    and idx: "0 \<le> index" "index < nodeWidth tc"
  shows "\<exists>q. innerQuotients tc f index = Inr q \<and> length q = length f
           \<and> (\<forall>i < length f. i \<noteq> nat index \<longrightarrow>
                 q ! i = (f ! i - f ! nat index)
                          * inverse ((Scale2RootOfUnity L ! nat w) ^ i)
                          * inverses tc ! nat ((index - int i) mod nodeWidth tc))
           \<and> q ! nat index =
               0 - (\<Sum>i \<in> {i. i < length f \<and> i \<noteq> nat index}.
                      (Scale2RootOfUnity L ! nat w) powi (int i - index) * q ! i)"
proof -
  define om where "om = Scale2RootOfUnity L ! nat w"
  define n :: nat where "n = 2 ^ nat w"
  define x where "x = nat index"
  let ?N = "nodeWidth tc"
  note facts = initTreeConfig_facts [OF cfg]
  have N: "?N = int n" using facts(1) by (simp add: n_def)
  have lf: "length f = n" using len N by simp
  have npos: "0 < n" by (simp add: n_def)
  have xn: "x < n" and ix: "index = int x" using idx N by (simp_all add: x_def)
  have rt: "om ^ n = 1" using root by (simp add: om_def n_def)
  have oms: "omegaIs tc ! k = om ^ k" if "k < n" for k
    using facts(4) that by (simp add: om_def n_def)
  have y: "elem f index = Inr (f ! x)" using idx len by (simp add: elem_ok x_def)
  obtain q where q:
    "for_range 0 ?N (innerQuotients_body tc f index (f ! x)) (replicate (nat ?N) 0) = Inr q"
    "length q = nat ?N"
    "\<forall>j < nat ?N. j \<noteq> nat index \<longrightarrow> q ! j = (f ! j - f ! x)
        * omegaIs tc ! nat ((?N - int j) mod ?N)
        * inverses tc ! nat ((index + ?N - int j) mod ?N)"
    "q ! nat index = - (\<Sum>j \<in> {j. j < nat ?N \<and> j \<noteq> nat index}.
        omegaIs tc ! nat ((int j - index + ?N) mod ?N)
        * ((f ! j - f ! x) * omegaIs tc ! nat ((?N - int j) mod ?N)
           * inverses tc ! nat ((index + ?N - int j) mod ?N)))"
    using innerQuotients_loop [of tc f index "f ! x"] facts(1,2,3) idx lf npos N
    by (auto simp: n_def)
  have run: "innerQuotients tc f index = Inr q"
    using q(1) y N by (simp add: innerQuotients_def make_slice_ok)
  have lq: "length q = length f" using q(2) N lf by simp
  have entry: "q ! i = (f ! i - f ! x) * inverse (om ^ i)
      * inverses tc ! nat ((index - int i) mod ?N)" if i: "i < n" "i \<noteq> x" for i
  proof -
    have k: "nat ((int n - int i) mod int n) < n" using npos by (rule nat_mod_less)
    have "omegaIs tc ! nat ((?N - int i) mod ?N) = om ^ nat ((int n - int i) mod int n)"
      using oms [OF k] by (simp add: N)
    also have "\<dots> = inverse (om ^ i)" using rt i(1) by (rule root_power_neg_mod)
    finally have a: "omegaIs tc ! nat ((?N - int i) mod ?N) = inverse (om ^ i)" .
    have "index + ?N - int i = (index - int i) + 1 * ?N" by simp
    then have b: "(index + ?N - int i) mod ?N = (index - int i) mod ?N"
      by (simp only: mod_mult_self1)
    have "i < nat ?N" "i \<noteq> nat index" using i N by (simp_all add: x_def)
    then have "q ! i = (f ! i - f ! x) * omegaIs tc ! nat ((?N - int i) mod ?N)
        * inverses tc ! nat ((index + ?N - int i) mod ?N)"
      using q(3) by blast
    then show ?thesis by (simp only: a b)
  qed
  have weight: "omegaIs tc ! nat ((int i - index + ?N) mod ?N) = om powi (int i - index)"
    if i: "i < n" for i
  proof -
    have k: "nat ((int i - int x + int n) mod int n) < n" using npos by (rule nat_mod_less)
    have "omegaIs tc ! nat ((int i - index + ?N) mod ?N)
        = om ^ nat ((int i - int x + int n) mod int n)"
      using oms [OF k] by (simp add: N ix)
    also have "\<dots> = om powi (int i - int x)" using rt i xn by (rule root_power_int_mod)
    finally show ?thesis by (simp add: ix)
  qed
  have nn: "nat ?N = n" using N by simp
  have "q ! nat index = - (\<Sum>j \<in> {j. j < n \<and> j \<noteq> x}.
        omegaIs tc ! nat ((int j - index + ?N) mod ?N)
        * ((f ! j - f ! x) * omegaIs tc ! nat ((?N - int j) mod ?N)
           * inverses tc ! nat ((index + ?N - int j) mod ?N)))"
    using q(4) by (simp only: nn x_def)
  also have "(\<Sum>j \<in> {j. j < n \<and> j \<noteq> x}.
        omegaIs tc ! nat ((int j - index + ?N) mod ?N)
        * ((f ! j - f ! x) * omegaIs tc ! nat ((?N - int j) mod ?N)
           * inverses tc ! nat ((index + ?N - int j) mod ?N)))
      = (\<Sum>j \<in> {j. j < n \<and> j \<noteq> x}. om powi (int j - index) * q ! j)"
  proof (rule sum.cong)
    fix j assume "j \<in> {j. j < n \<and> j \<noteq> x}"
    then have j: "j < n" "j \<noteq> x" by simp_all
    have "j < nat ?N" "j \<noteq> nat index" using j N by (simp_all add: x_def)
    then have "q ! j = (f ! j - f ! x) * omegaIs tc ! nat ((?N - int j) mod ?N)
        * inverses tc ! nat ((index + ?N - int j) mod ?N)"
      using q(3) by blast
    then show "omegaIs tc ! nat ((int j - index + ?N) mod ?N)
        * ((f ! j - f ! x) * omegaIs tc ! nat ((?N - int j) mod ?N)
           * inverses tc ! nat ((index + ?N - int j) mod ?N))
        = om powi (int j - index) * q ! j"
      by (simp only: weight [OF j(1)])
  qed simp
  finally have last: "q ! nat index
      = 0 - (\<Sum>j \<in> {j. j < n \<and> j \<noteq> x}. om powi (int j - index) * q ! j)"
    by simp
  show ?thesis
    using run lq entry last unfolding om_def lf x_def by blast
qed

theorem innerQuotients_formula_witness:
  "initTreeConfig bls_rat 30 1 ([]::rat list) =
     Inr \<lparr>width = 1, nodeWidth = 2,
          modulus = 52435875175126190479447740508185965837690552500527637822603658699938581184513,
          omegaIs = [1, - 1], inverses = [0, 1 / 2], nodeWidthInversed = 1 / 2,
          lg1 = [], multiExpThreshold = 25\<rparr>
   \<and> (Scale2RootOfUnity bls_rat ! nat 1) ^ (2 ^ nat 1) = 1
   \<and> innerQuotients
        \<lparr>width = 1, nodeWidth = 2,
         modulus = 52435875175126190479447740508185965837690552500527637822603658699938581184513,
         omegaIs = [1, - 1], inverses = [0, 1 / 2], nodeWidthInversed = 1 / 2,
         lg1 = ([]::rat list), multiExpThreshold = 25\<rparr> [3, 5 :: rat] 1 = Inr [- 1, - 1]"
proof -
  let ?tc = "\<lparr>width = 1, nodeWidth = 2,
          modulus = 52435875175126190479447740508185965837690552500527637822603658699938581184513,
          omegaIs = [1, - 1], inverses = [0, 1 / 2], nodeWidthInversed = 1 / 2,
          lg1 = ([]::rat list), multiExpThreshold = 25\<rparr>"
  have cfg: "initTreeConfig bls_rat 30 1 ([]::rat list) = Inr ?tc" by code_simp
  have om: "Scale2RootOfUnity bls_rat ! nat 1 = - 1" by (simp add: bls_rat_def)
  have root: "(Scale2RootOfUnity bls_rat ! nat 1) ^ (2 ^ nat 1) = 1"
    by (simp only: om) simp
  have len: "int (length [3, 5 :: rat]) = nodeWidth ?tc" by simp
  have idx: "(0::int) \<le> 1" "1 < nodeWidth ?tc" by simp_all
  have S: "{i. i < length [3, 5 :: rat] \<and> i \<noteq> nat 1} = {0}" by auto
  note inst = innerQuotients_formula [OF cfg root len idx]
  from inst show ?thesis
  proof (elim exE conjE)
    fix q
    assume run: "innerQuotients ?tc [3, 5] 1 = Inr q"
      and lq: "length q = length [3, 5 :: rat]"
      and ent: "\<forall>i < length [3, 5 :: rat]. i \<noteq> nat 1 \<longrightarrow>
        q ! i = ([3, 5] ! i - [3, 5] ! nat 1)
                 * inverse ((Scale2RootOfUnity bls_rat ! nat 1) ^ i)
                 * inverses ?tc ! nat ((1 - int i) mod nodeWidth ?tc)"
      and acc: "q ! nat 1 = 0 - (\<Sum>i \<in> {i. i < length [3, 5 :: rat] \<and> i \<noteq> nat 1}.
        (Scale2RootOfUnity bls_rat ! nat 1) powi (int i - 1) * q ! i)"
    from lq obtain a b where ab: "q = [a, b]"
      by (auto simp: length_Suc_conv numeral_2_eq_2)
    have "q ! 0 = ([3, 5] ! 0 - [3, 5] ! nat 1) * inverse ((- 1) ^ 0)
        * inverses ?tc ! nat ((1 - int 0) mod nodeWidth ?tc)"
      using ent [rule_format, of 0] by (simp only: om) simp
    then have a: "a = - 1" by (simp add: ab)
    have "q ! nat 1 = 0 - ((- 1) powi (int 0 - 1) * q ! 0)"
      using acc by (simp only: S om) simp
    then have b: "b = - 1" by (simp add: ab a power_int_def)
    show ?thesis using cfg root run by (simp add: ab a b)
  qed
qed

section \<open>Properties of the commitment\<close>

lemma evalPoly_naive_loop:
  fixes L :: "('a::field, 'g::comm_monoid_add) bls"
  assumes len: "length poly \<le> length (lg1 tc)" and zero: "\<forall>p. MulG1 L p 0 = 0"
  shows "for_range 0 (int (length poly)) (evalPoly_body L tc poly) 0
           = Inr (\<Sum>i < length poly. MulG1 L (lg1 tc ! i) (poly ! i))"
proof -
  define I where "I = (\<lambda>k (c :: 'g). c = (\<Sum>i < nat k. MulG1 L (lg1 tc ! i) (poly ! i)))"
  have "\<exists>c. for_range 0 (int (length poly)) (evalPoly_body L tc poly) 0 = Inr c
          \<and> I (int (length poly)) c"
  proof (rule for_range_rule)
    show "I 0 0" by (simp add: I_def)
    show "0 \<le> int (length poly)" by simp
  next
    fix k and c :: 'g
    assume k: "0 \<le> k" "k < int (length poly)" and inv: "I k c"
    have nk: "nat (k + 1) = Suc (nat k)" using k by simp
    have e1: "elem poly k = Inr (poly ! nat k)" using k by (simp add: elem_ok)
    have e2: "elem (lg1 tc) k = Inr (lg1 tc ! nat k)" using k len by (simp add: elem_ok)
    have run: "evalPoly_body L tc poly k c = Inr (c + MulG1 L (lg1 tc ! nat k) (poly ! nat k))"
      using zero by (simp add: evalPoly_body_def e1 e2)
    have "I (k + 1) (c + MulG1 L (lg1 tc ! nat k) (poly ! nat k))"
      using inv by (simp add: I_def nk)
    with run show "\<exists>c'. evalPoly_body L tc poly k c = Inr c' \<and> I (k + 1) c'" by blast
  qed
  then show ?thesis by (simp add: I_def)
qed

lemma sum_list_zip_nth:
  fixes g :: "'b \<Rightarrow> 'c \<Rightarrow> 'g::comm_monoid_add"
  assumes "length xs = length ys"
  shows "sum_list (map (\<lambda>(p, c). g p c) (zip xs ys)) = (\<Sum>i < length ys. g (xs ! i) (ys ! i))"
proof -
  have "sum_list (map (\<lambda>(p, c). g p c) (zip xs ys))
      = (\<Sum>i = 0..<length (zip xs ys). (\<lambda>(p, c). g p c) (zip xs ys ! i))"
    by (simp add: sum_list_sum_nth)
  also have "\<dots> = (\<Sum>i = 0..<length ys. g (xs ! i) (ys ! i))"
    using assms by (intro sum.cong) simp_all
  finally show ?thesis by (simp add: atLeast0LessThan)
qed

text \<open>
  C3. For an evaluation vector \<open>poly\<close> with one entry per point of the Lagrange basis
  \<open>lg1\<close>, and a scalar multiplication that sends the zero scalar to the identity of the
  group, the multi-scalar-multiplication branch of \<open>evalPoly\<close> and the loop over the
  non-zero entries return the same group element, the sum of the \<open>lg1[i] \<cdot> poly[i]\<close>. So
  \<open>evalPoly\<close> returns that element whatever \<open>emptyChildren\<close> is, on either side of
  \<open>multiExpThreshold\<close>.
\<close>

theorem evalPoly_branches_agree:
  fixes L :: "('a::field, 'g::comm_monoid_add) bls"
  assumes len: "length poly = length (lg1 tc)" and zero: "\<forall>p. MulG1 L p 0 = 0"
  shows "evalPoly_multiExp L tc poly = Inr (\<Sum>i < length poly. MulG1 L (lg1 tc ! i) (poly ! i))
       \<and> evalPoly_naive L tc poly = evalPoly_multiExp L tc poly
       \<and> evalPoly L tc poly e = evalPoly L tc poly e'"
proof -
  have m: "evalPoly_multiExp L tc poly
      = Inr (\<Sum>i < length poly. MulG1 L (lg1 tc ! i) (poly ! i))"
    using len by (simp add: evalPoly_multiExp_def LinCombG1_def sum_list_zip_nth)
  have n: "evalPoly_naive L tc poly
      = Inr (\<Sum>i < length poly. MulG1 L (lg1 tc ! i) (poly ! i))"
    unfolding evalPoly_naive_def using len zero by (intro evalPoly_naive_loop) simp_all
  show ?thesis using m n by (simp add: evalPoly_def)
qed

theorem evalPoly_branches_agree_witness:
  "length (replicate 25 (2::rat) @ replicate 231 0)
     = length (lg1 \<lparr>width = 8, nodeWidth = 256, modulus = 0, omegaIs = [], inverses = [],
                     nodeWidthInversed = 0, lg1 = replicate 256 (3::rat),
                     multiExpThreshold = 25\<rparr>)
   \<and> (\<forall>p. MulG1 bls_rat p 0 = 0)
   \<and> evalPoly bls_rat \<lparr>width = 8, nodeWidth = 256, modulus = 0, omegaIs = [], inverses = [],
                     nodeWidthInversed = 0, lg1 = replicate 256 (3::rat),
                     multiExpThreshold = 25\<rparr> (replicate 25 2 @ replicate 231 0) 231 = Inr 150
   \<and> evalPoly bls_rat \<lparr>width = 8, nodeWidth = 256, modulus = 0, omegaIs = [], inverses = [],
                     nodeWidthInversed = 0, lg1 = replicate 256 (3::rat),
                     multiExpThreshold = 25\<rparr> (replicate 25 2 @ replicate 231 0) 232 = Inr 150"
proof -
  let ?tc = "\<lparr>width = 8, nodeWidth = 256, modulus = 0, omegaIs = [], inverses = [],
      nodeWidthInversed = (0::rat), lg1 = replicate 256 (3::rat), multiExpThreshold = 25\<rparr>"
  let ?poly = "replicate 25 (2::rat) @ replicate 231 0"
  have len: "length ?poly = length (lg1 ?tc)" by simp
  have zero: "\<forall>p. MulG1 bls_rat p 0 = 0" by (simp add: bls_rat_def)
  have naive: "evalPoly bls_rat ?tc ?poly 232 = Inr 150" by code_simp
  have "evalPoly bls_rat ?tc ?poly 231 = evalPoly bls_rat ?tc ?poly 232"
    using evalPoly_branches_agree [OF len zero] by blast
  with naive len zero show ?thesis by simp
qed

end
